theory Spec2Isabelle
  imports Main "HOL-Library.AList"
begin

section \<open>JSON values\<close>

text \<open>
  The values produced by \<^verbatim>\<open>JSON.parse\<close> and consumed by \<^verbatim>\<open>JSON.stringify\<close>.
  An object is an association list in insertion order; the objects a parser produces
  hold every key once. A number is the integer it denotes: a JSON number with a
  fraction, or too large for a double (it parses to an infinity), is outside the
  model. The tool call indices the program computes itself, with \<^verbatim>\<open>parseInt\<close>
  and with \<^verbatim>\<open>+ 1\<close>, are doubles, and are rounded as doubles are (\<open>roundInt\<close>
  below).
\<close>

datatype json =
    JNull
  | JBool bool
  | JNum int
  | JStr string
  | JArr "json list"
  | JObj "(string \<times> json) list"

type_synonym obj = "(string \<times> json) list"

text \<open>\<^verbatim>\<open>Array.isArray(value)\<close>\<close>

fun isArray :: "json option \<Rightarrow> bool" where
  "isArray (Some (JArr xs)) = True"
| "isArray _ = False"

text \<open>\<^verbatim>\<open>Array.isArray(value) && value.length > 0\<close>\<close>

fun isValidArray :: "json option \<Rightarrow> bool" where
  "isValidArray (Some (JArr xs)) = (xs \<noteq> [])"
| "isValidArray _ = False"

text \<open>\<^verbatim>\<open>value !== null && typeof value === "object" && !Array.isArray(value)\<close>\<close>

fun isPlainObject :: "json option \<Rightarrow> bool" where
  "isPlainObject (Some (JObj kvs)) = True"
| "isPlainObject _ = False"

text \<open>
  \<^verbatim>\<open>safeGet(obj, path)\<close>: \<open>None\<close> is \<^verbatim>\<open>undefined\<close>. Every path the program
  uses is made of plain field names (never an array position, \<^verbatim>\<open>length\<close> or a member
  inherited from the object prototype), so the lookup of a field in an array is
  \<^verbatim>\<open>undefined\<close>.
\<close>

fun safeGet :: "json \<Rightarrow> string list \<Rightarrow> json option" where
  "safeGet cur [] = Some cur"
| "safeGet (JObj kvs) (k # ks) =
     (case map_of kvs k of None \<Rightarrow> None | Some v \<Rightarrow> safeGet v ks)"
| "safeGet _ (k # ks) = None"

text \<open>JavaScript truthiness of a property value (\<open>None\<close> is \<^verbatim>\<open>undefined\<close>).\<close>

fun truthy :: "json option \<Rightarrow> bool" where
  "truthy None = False"
| "truthy (Some JNull) = False"
| "truthy (Some (JBool b)) = b"
| "truthy (Some (JNum n)) = (n \<noteq> 0)"
| "truthy (Some (JStr s)) = (s \<noteq> [])"
| "truthy (Some (JArr xs)) = True"
| "truthy (Some (JObj kvs)) = True"

section \<open>Tool call index assignment\<close>

record ChoiceIndexState =
  nextIndex :: int
  assigned :: "string \<rightharpoonup> int"

definition initialChoiceState :: ChoiceIndexState where
  "initialChoiceState = \<lparr>nextIndex = 0, assigned = Map.empty\<rparr>"

text \<open>
  \<^verbatim>\<open>typeof v === "string" && v.length > 0\<close>, as \<^verbatim>\<open>getToolCallKey\<close> and the
  signature extraction test a field. \<^verbatim>\<open>getToolCallKey\<close>: the id when it is a
  non-empty string, else the function name behind the prefix \<^verbatim>\<open>fn:\<close>, else no key.
\<close>

definition nonEmptyString :: "json option \<Rightarrow> string option" where
  "nonEmptyString v = (case v of Some (JStr s) \<Rightarrow> (if s \<noteq> [] then Some s else None) | _ \<Rightarrow> None)"

definition getToolCallKey :: "json \<Rightarrow> string option" where
  "getToolCallKey call =
     (if \<not> isPlainObject (Some call) then None
      else case nonEmptyString (safeGet call [''id'']) of
        Some i \<Rightarrow> Some i
      | None \<Rightarrow>
          (case nonEmptyString (safeGet call [''function'', ''name'']) of
             Some f \<Rightarrow> Some (''fn:'' @ f)
           | None \<Rightarrow> None))"

text \<open>
  The arithmetic of the program is that of IEEE 754 doubles. \<open>roundNat m\<close> is the
  double nearest to the natural number \<open>m\<close>, ties to even: a number below 2^53 is
  itself, a longer one keeps its 53 leading bits. \<open>roundInt\<close> does the same on both
  sides of zero. A \<open>number\<close> is the result of a conversion: a finite (integer)
  double, an infinity (the nearest double would be 2^1024 or beyond) or
  \<^verbatim>\<open>NaN\<close>.
\<close>

fun bitLength :: "nat \<Rightarrow> nat" where
  "bitLength n = (if n = 0 then 0 else Suc (bitLength (n div 2)))"

definition roundNat :: "nat \<Rightarrow> nat" where
  "roundNat m =
     (if m < 2 ^ 53 then m
      else let e = bitLength m - 53;
               q = m div 2 ^ e;
               r = m mod 2 ^ e
           in if 2 ^ e < 2 * r \<or> (2 * r = 2 ^ e \<and> odd q) then (q + 1) * 2 ^ e
              else q * 2 ^ e)"

definition roundInt :: "int \<Rightarrow> int" where
  "roundInt n = (if n < 0 then - int (roundNat (nat (- n))) else int (roundNat (nat n)))"

datatype number = Finite int | PosInfinity | NegInfinity | NaN

definition toNumber :: "int \<Rightarrow> number" where
  "toNumber n =
     (let m = roundInt n
      in if 2 ^ 1024 \<le> m then PosInfinity
         else if m \<le> - (2 ^ 1024) then NegInfinity
         else Finite m)"

text \<open>
  The white space \<^verbatim>\<open>parseInt\<close> skips. A string is the list of the bytes of its
  UTF-8 encoding: the white space of ASCII is one byte, the no-break space
  (U+00A0) two, and the others (U+1680, U+2000 to U+200A, U+2028, U+2029, U+202F,
  U+205F, U+3000 and U+FEFF) three.
\<close>

definition isWhiteSpace :: "char \<Rightarrow> bool" where
  "isWhiteSpace c = (c \<in> set [CHR '' '', CHR 0x09, CHR 0x0A, CHR 0x0B, CHR 0x0C, CHR 0x0D])"

definition isWhiteSpace2 :: "char \<Rightarrow> char \<Rightarrow> bool" where
  "isWhiteSpace2 a b = (a = CHR 0xC2 \<and> b = CHR 0xA0)"

definition isWhiteSpace3 :: "char \<Rightarrow> char \<Rightarrow> char \<Rightarrow> bool" where
  "isWhiteSpace3 a b c =
     ((a = CHR 0xE1 \<and> b = CHR 0x9A \<and> c = CHR 0x80)
      \<or> (a = CHR 0xE2 \<and> b = CHR 0x80
          \<and> (((0x80::nat) \<le> of_char c \<and> (of_char c :: nat) \<le> 0x8A)
             \<or> c = CHR 0xA8 \<or> c = CHR 0xA9 \<or> c = CHR 0xAF))
      \<or> (a = CHR 0xE2 \<and> b = CHR 0x81 \<and> c = CHR 0x9F)
      \<or> (a = CHR 0xE3 \<and> b = CHR 0x80 \<and> c = CHR 0x80)
      \<or> (a = CHR 0xEF \<and> b = CHR 0xBB \<and> c = CHR 0xBF))"

fun skipWhiteSpace :: "string \<Rightarrow> string" where
  "skipWhiteSpace (a # b # c # rest) =
     (if isWhiteSpace a then skipWhiteSpace (b # c # rest)
      else if isWhiteSpace2 a b then skipWhiteSpace (c # rest)
      else if isWhiteSpace3 a b c then skipWhiteSpace rest
      else a # b # c # rest)"
| "skipWhiteSpace [a, b] =
     (if isWhiteSpace a then skipWhiteSpace [b]
      else if isWhiteSpace2 a b then []
      else [a, b])"
| "skipWhiteSpace [a] = (if isWhiteSpace a then [] else [a])"
| "skipWhiteSpace [] = []"

text \<open>
  \<^verbatim>\<open>parseInt(s, 10)\<close>: leading white space is skipped, one sign is read, then the
  longest run of decimal digits. Without a digit the result is \<^verbatim>\<open>NaN\<close>; otherwise
  it is the double nearest to the integer the digits denote, which is an infinity
  for a run of some 309 digits or more. (For a run of more than 20 digits the
  language lets an implementation read the digits after the 20th as zeros; the
  model rounds the exact value.)
\<close>

definition isDigit :: "char \<Rightarrow> bool" where
  "isDigit c = ((48::nat) \<le> of_char c \<and> (of_char c :: nat) \<le> 57)"

definition digitValue :: "char \<Rightarrow> nat" where
  "digitValue c = of_char c - 48"

definition digitsValue :: "string \<Rightarrow> nat" where
  "digitsValue ds = foldl (\<lambda>a c. 10 * a + digitValue c) 0 ds"

definition parseInt :: "string \<Rightarrow> number" where
  "parseInt s =
     (let t = skipWhiteSpace s;
          neg = (t \<noteq> [] \<and> hd t = CHR ''-'');
          u = (if t \<noteq> [] \<and> (hd t = CHR ''-'' \<or> hd t = CHR ''+'') then tl t else t);
          ds = takeWhile isDigit u
      in if ds = [] then NaN
         else toNumber (if neg then - int (digitsValue ds) else int (digitsValue ds)))"

text \<open>
  The decimal numeral of an integer, as \<^verbatim>\<open>String(n)\<close> writes an integer below
  10^21.
\<close>

fun decimalNat :: "nat \<Rightarrow> string" where
  "decimalNat n =
     (if n < 10 then [char_of (48 + n)]
      else decimalNat (n div 10) @ [char_of (48 + n mod 10)])"

definition decimal :: "int \<Rightarrow> string" where
  "decimal n = (if n < 0 then CHR ''-'' # decimalNat (nat (- n)) else decimalNat (nat n))"

text \<open>
  The first step of \<^verbatim>\<open>ensureToolCallIndex\<close>, the conversion of a string index:
  the numeric index the call has after it, and whether the call was mutated. The
  index is \<open>Some n\<close> when \<^verbatim>\<open>call.index\<close> is a number, or a string that parses to a
  number that is neither \<^verbatim>\<open>NaN\<close> nor infinite; it is \<open>None\<close> when the field is
  missing, of another type, or a string that parses to \<^verbatim>\<open>NaN\<close> or to an infinity
  (then the code stores \<^verbatim>\<open>undefined\<close>).
\<close>

definition convertIndex :: "obj \<Rightarrow> int option \<times> bool" where
  "convertIndex call =
     (case map_of call ''index'' of
        Some (JStr s) \<Rightarrow>
          (case parseInt s of
             Finite numIndex \<Rightarrow> (Some numIndex, True)
           | _ \<Rightarrow> (None, False))
      | Some (JNum n) \<Rightarrow> (Some n, False)
      | _ \<Rightarrow> (None, False))"

text \<open>The index a fragment arrives with.\<close>

definition suppliedIndex :: "obj \<Rightarrow> int option" where
  "suppliedIndex call = fst (convertIndex call)"

text \<open>\<^verbatim>\<open>if (key) state.assigned.set(key, index)\<close>\<close>

definition setAssigned :: "string option \<Rightarrow> int \<Rightarrow> (string \<rightharpoonup> int) \<Rightarrow> (string \<rightharpoonup> int)" where
  "setAssigned key i m = (case key of None \<Rightarrow> m | Some k \<Rightarrow> m(k \<mapsto> i))"

text \<open>
  \<^verbatim>\<open>ensureToolCallIndex(state, call)\<close> mutates both arguments and returns whether
  the call was mutated; the model returns the new state, the new call and the flag.
  A write to \<^verbatim>\<open>call.index\<close> leaves the field where it is when the call has it and
  adds it at the end otherwise. \<^verbatim>\<open>call.index + 1\<close> and \<^verbatim>\<open>state.nextIndex++\<close> add
  doubles: the sum is rounded (and is finite, the sum of a finite double and 1
  being the double itself from 2^53 on).
\<close>

definition ensureToolCallIndex ::
  "ChoiceIndexState \<Rightarrow> obj \<Rightarrow> ChoiceIndexState \<times> obj \<times> bool" where
  "ensureToolCallIndex state call =
     (let key = getToolCallKey (JObj call)
      in case convertIndex call of
        (Some index, mutated) \<Rightarrow>
          (\<lparr>nextIndex = max (nextIndex state) (roundInt (index + 1)),
            assigned = setAssigned key index (assigned state)\<rparr>,
           (if mutated then AList.update ''index'' (JNum index) call else call),
           mutated)
      | (None, mutated) \<Rightarrow>
          (case (case key of None \<Rightarrow> None | Some k \<Rightarrow> assigned state k) of
             Some index \<Rightarrow> (state, AList.update ''index'' (JNum index) call, True)
           | None \<Rightarrow>
               (\<lparr>nextIndex = roundInt (nextIndex state + 1),
                 assigned = setAssigned key (nextIndex state) (assigned state)\<rparr>,
                AList.update ''index'' (JNum (nextIndex state)) call,
                True)))"

text \<open>
  The loop of \<^verbatim>\<open>patchToolCallIndices\<close> over the tool calls of one delta: entries
  that are not plain objects are skipped, the others go through
  \<^verbatim>\<open>ensureToolCallIndex\<close> in order, against the state of the choice.
\<close>

fun patchCalls :: "ChoiceIndexState \<Rightarrow> json list \<Rightarrow> ChoiceIndexState \<times> json list \<times> bool" where
  "patchCalls state [] = (state, [], False)"
| "patchCalls state (JObj call # rest) =
     (case ensureToolCallIndex state call of
        (state1, call1, wasMutated) \<Rightarrow>
          (case patchCalls state1 rest of
             (state2, rest2, mutated) \<Rightarrow> (state2, JObj call1 # rest2, wasMutated \<or> mutated)))"
| "patchCalls state (other # rest) =
     (case patchCalls state rest of
        (state2, rest2, mutated) \<Rightarrow> (state2, other # rest2, mutated))"








section \<open>JSON Schema transformation\<close>

text \<open>
  What a call into the code can raise. \<^verbatim>\<open>JSON.parse\<close> raises a syntax error, a table
  entry that is not callable raises a type error, and a transform function supplied
  by the caller may raise anything.
\<close>

datatype error = SyntaxError | TypeError | Thrown string

text \<open>
  The options of \<^verbatim>\<open>transformJsonSchema\<close>. \<open>keywordTransforms\<close> is the table as the
  code reads it, with \<^verbatim>\<open>key in options.keywordTransforms\<close> and
  \<^verbatim>\<open>options.keywordTransforms[key]\<close>: both also find the members the table inherits
  from the object prototype of the runtime. A function of the table returns the
  object to merge, or raises.
\<close>

record SchemaTransformOptions =
  keywordsToRemove :: "string set"
  keywordTransforms :: "string \<rightharpoonup> (json \<Rightarrow> error + obj)"

text \<open>\<^verbatim>\<open>SCHEMA_TRANSFORM_CONFIG\<close>\<close>

definition defaultKeywordsToRemove :: "string list" where
  "defaultKeywordsToRemove =
     [''propertyNames'', ''patternProperties'', ''dependencies'',
      ''if'', ''then'', ''else'', ''not'',
      ''$ref'', ''$id'', ''$schema'', ''$comment'']"

text \<open>\<^verbatim>\<open>const: (value) => ({ enum: [value] })\<close>\<close>

definition constToEnum :: "json \<Rightarrow> error + obj" where
  "constToEnum v = Inr [(''enum'', JArr [v])]"

text \<open>
  The options \<^verbatim>\<open>createToolCallIndexPatchedFetch\<close> builds when the caller adds
  nothing: the default removals, and a fresh table holding the default entry for
  \<^verbatim>\<open>const\<close>. \<open>inherited\<close> stands for the members that table inherits from the
  runtime (they are not code of this program); its own entry shadows them.
\<close>

definition defaultOptions :: "(string \<rightharpoonup> (json \<Rightarrow> error + obj)) \<Rightarrow> SchemaTransformOptions" where
  "defaultOptions inherited =
     \<lparr>keywordsToRemove = set defaultKeywordsToRemove,
      keywordTransforms = inherited(''const'' \<mapsto> constToEnum)\<rparr>"

text \<open>\<^verbatim>\<open>Object.assign(result, transformed)\<close>: each entry is written in turn; a key
  that is already there keeps its place and takes the new value.\<close>

definition objectAssign :: "obj \<Rightarrow> obj \<Rightarrow> obj" where
  "objectAssign result transformed = foldl (\<lambda>r (k, v). AList.update k v r) result transformed"

text \<open>\<^verbatim>\<open>value !== null && typeof value === "object"\<close>\<close>

fun isObjectValue :: "json \<Rightarrow> bool" where
  "isObjectValue (JArr xs) = True"
| "isObjectValue (JObj kvs) = True"
| "isObjectValue _ = False"

text \<open>
  \<^verbatim>\<open>transformJsonSchema(obj, options)\<close>. \<open>transformItems\<close> is the \<^verbatim>\<open>obj.map\<close> of
  the array case and \<open>transformEntries\<close> the loop over \<^verbatim>\<open>Object.entries\<close>, with
  \<open>result\<close> the object built so far.
\<close>

fun transformJsonSchema :: "SchemaTransformOptions \<Rightarrow> json \<Rightarrow> error + json"
  and transformItems :: "SchemaTransformOptions \<Rightarrow> json list \<Rightarrow> error + json list"
  and transformEntries :: "SchemaTransformOptions \<Rightarrow> obj \<Rightarrow> obj \<Rightarrow> error + obj"
where
  "transformJsonSchema options (JArr items) =
     (case transformItems options items of
        Inl e \<Rightarrow> Inl e
      | Inr items' \<Rightarrow> Inr (JArr items'))"
| "transformJsonSchema options (JObj entries) =
     (case transformEntries options entries [] of
        Inl e \<Rightarrow> Inl e
      | Inr result \<Rightarrow> Inr (JObj result))"
| "transformJsonSchema options JNull = Inr JNull"
| "transformJsonSchema options (JBool b) = Inr (JBool b)"
| "transformJsonSchema options (JNum n) = Inr (JNum n)"
| "transformJsonSchema options (JStr s) = Inr (JStr s)"
| "transformItems options [] = Inr []"
| "transformItems options (item # items) =
     (case transformJsonSchema options item of
        Inl e \<Rightarrow> Inl e
      | Inr item' \<Rightarrow>
          (case transformItems options items of
             Inl e \<Rightarrow> Inl e
           | Inr items' \<Rightarrow> Inr (item' # items')))"
| "transformEntries options [] result = Inr result"
| "transformEntries options ((key, value) # entries) result =
     (if key \<in> keywordsToRemove options then transformEntries options entries result
      else case keywordTransforms options key of
        Some transform \<Rightarrow>
          (case transform value of
             Inl e \<Rightarrow> Inl e
           | Inr transformed \<Rightarrow>
               transformEntries options entries (objectAssign result transformed))
      | None \<Rightarrow>
          (if isObjectValue value
           then (case transformJsonSchema options value of
                   Inl e \<Rightarrow> Inl e
                 | Inr value' \<Rightarrow>
                     transformEntries options entries (AList.update key value' result))
           else transformEntries options entries (AList.update key value result)))"

text \<open>Every key of a value, at any depth.\<close>

fun keysOf :: "json \<Rightarrow> string list"
  and keysOfItems :: "json list \<Rightarrow> string list"
  and keysOfEntries :: "obj \<Rightarrow> string list"
where
  "keysOf (JArr items) = keysOfItems items"
| "keysOf (JObj entries) = keysOfEntries entries"
| "keysOf JNull = []"
| "keysOf (JBool b) = []"
| "keysOf (JNum n) = []"
| "keysOf (JStr s) = []"
| "keysOfItems [] = []"
| "keysOfItems (item # items) = keysOf item @ keysOfItems items"
| "keysOfEntries [] = []"
| "keysOfEntries ((key, value) # entries) = key # keysOf value @ keysOfEntries entries"


subsection \<open>Notions used to state the properties of the transformation\<close>

text \<open>A value in which every object holds each key once, as every parsed value does.\<close>

fun wellFormed :: "json \<Rightarrow> bool"
  and wellFormedItems :: "json list \<Rightarrow> bool"
  and wellFormedEntries :: "obj \<Rightarrow> bool"
where
  "wellFormed (JArr items) = wellFormedItems items"
| "wellFormed (JObj entries) = (distinct (map fst entries) \<and> wellFormedEntries entries)"
| "wellFormed JNull = True"
| "wellFormed (JBool b) = True"
| "wellFormed (JNum n) = True"
| "wellFormed (JStr s) = True"
| "wellFormedItems [] = True"
| "wellFormedItems (item # items) = (wellFormed item \<and> wellFormedItems items)"
| "wellFormedEntries [] = True"
| "wellFormedEntries ((key, value) # entries) = (wellFormed value \<and> wellFormedEntries entries)"

text \<open>A key the transformation copies: it is neither removed nor transformed.\<close>

definition plainKey :: "SchemaTransformOptions \<Rightarrow> string \<Rightarrow> bool" where
  "plainKey options key =
     (key \<notin> keywordsToRemove options \<and> keywordTransforms options key = None)"

text \<open>A value all of whose keys, at any depth, are copied.\<close>

definition plainValue :: "SchemaTransformOptions \<Rightarrow> json \<Rightarrow> bool" where
  "plainValue options v = list_all (plainKey options) (keysOf v)"

text \<open>
  The entries at which the traversal calls a function of the table: it does not
  enter the value of a removed key, nor the value it hands to a function.
\<close>

fun reachedTransforms :: "SchemaTransformOptions \<Rightarrow> json \<Rightarrow> (string \<times> json) list"
  and reachedTransformsItems :: "SchemaTransformOptions \<Rightarrow> json list \<Rightarrow> (string \<times> json) list"
  and reachedTransformsEntries :: "SchemaTransformOptions \<Rightarrow> obj \<Rightarrow> (string \<times> json) list"
where
  "reachedTransforms options (JArr items) = reachedTransformsItems options items"
| "reachedTransforms options (JObj entries) = reachedTransformsEntries options entries"
| "reachedTransforms options JNull = []"
| "reachedTransforms options (JBool b) = []"
| "reachedTransforms options (JNum n) = []"
| "reachedTransforms options (JStr s) = []"
| "reachedTransformsItems options [] = []"
| "reachedTransformsItems options (item # items) =
     reachedTransforms options item @ reachedTransformsItems options items"
| "reachedTransformsEntries options [] = []"
| "reachedTransformsEntries options ((key, value) # entries) =
     (if key \<in> keywordsToRemove options then []
      else case keywordTransforms options key of
        Some transform \<Rightarrow> [(key, value)]
      | None \<Rightarrow> reachedTransforms options value)
     @ reachedTransformsEntries options entries"

text \<open>The only entries on which the traversal of \<open>s\<close> calls a function are
  \<^verbatim>\<open>const\<close> entries, and the function does what the default one does: from the
  value \<open>v\<close> it makes \<^verbatim>\<open>{enum: [v]}\<close>.\<close>

definition constEntry :: "SchemaTransformOptions \<Rightarrow> string \<times> json \<Rightarrow> bool" where
  "constEntry options entry =
     (fst entry = ''const''
      \<and> (case keywordTransforms options (fst entry) of
            Some transform \<Rightarrow> transform (snd entry) = constToEnum (snd entry)
          | None \<Rightarrow> False))"

definition onlyConstToEnum :: "SchemaTransformOptions \<Rightarrow> json \<Rightarrow> bool" where
  "onlyConstToEnum options s = list_all (constEntry options) (reachedTransforms options s)"

text \<open>Moreover the value of every such \<^verbatim>\<open>const\<close> holds only keys that are copied (a
  primitive value, for one).\<close>

definition constValuesPlain :: "SchemaTransformOptions \<Rightarrow> json \<Rightarrow> bool" where
  "constValuesPlain options s =
     list_all (\<lambda>entry. plainValue options (snd entry)) (reachedTransforms options s)"

text \<open>An object that has each key once, all of them copied keys, with well-formed
  values of copied keys only.\<close>

definition plainObject :: "SchemaTransformOptions \<Rightarrow> obj \<Rightarrow> bool" where
  "plainObject options al =
     (distinct (map fst al)
      \<and> (\<forall>(k, v)\<in>set al. plainKey options k \<and> wellFormed v \<and> plainValue options v))"

text \<open>Positions in a value: a path of object fields and array items.\<close>

datatype pathStep = Field string | Item nat

fun valueAt :: "json \<Rightarrow> pathStep list \<Rightarrow> json option" where
  "valueAt v [] = Some v"
| "valueAt (JObj entries) (Field key # path) =
     (case map_of entries key of None \<Rightarrow> None | Some v \<Rightarrow> valueAt v path)"
| "valueAt (JArr items) (Item i # path) =
     (if i < length items then valueAt (items ! i) path else None)"
| "valueAt _ (step # path) = None"

text \<open>A path the transformation keeps: its fields are copied keys other than
  \<^verbatim>\<open>enum\<close>, the key the default function writes.\<close>

fun keptStep :: "SchemaTransformOptions \<Rightarrow> pathStep \<Rightarrow> bool" where
  "keptStep options (Field key) = (plainKey options key \<and> key \<noteq> ''enum'')"
| "keptStep options (Item i) = True"

definition keptPath :: "SchemaTransformOptions \<Rightarrow> pathStep list \<Rightarrow> bool" where
  "keptPath options path = list_all (keptStep options) path"

text \<open>An object has an \<^verbatim>\<open>enum\<close> entry behind its \<^verbatim>\<open>const\<close> entry.\<close>

definition enumAfterConst :: "obj \<Rightarrow> bool" where
  "enumAfterConst entries =
     (''enum'' \<in> set (map fst (dropWhile (\<lambda>entry. fst entry \<noteq> ''const'') entries)))"

text \<open>The hypothesis on the table, for the entries of one object: a function is asked
  only at \<^verbatim>\<open>const\<close>, where it gives \<^verbatim>\<open>{enum: [v]}\<close>.\<close>

definition entriesOk :: "SchemaTransformOptions \<Rightarrow> obj \<Rightarrow> bool" where
  "entriesOk options entries =
     (\<forall>(k, v)\<in>set entries. k \<notin> keywordsToRemove options \<longrightarrow>
        (case keywordTransforms options k of
           Some f \<Rightarrow> k = ''const'' \<and> f v = Inr [(''enum'', JArr [v])]
         | None \<Rightarrow> True))"


section \<open>Request bodies\<close>

text \<open>
  \<^verbatim>\<open>JSON.parse\<close> and \<^verbatim>\<open>JSON.stringify\<close> belong to the runtime and are taken as
  parameters: \<open>parse\<close> gives \<open>None\<close> where \<^verbatim>\<open>JSON.parse\<close> raises. \<open>debug\<close> is the
  module constant \<^verbatim>\<open>DEBUG\<close>, read from the environment, and \<open>badPattern\<close> tells
  for which keywords \<^verbatim>\<open>new RegExp\<close> raises in \<^verbatim>\<open>validateTransformation\<close>.
\<close>

record Runtime =
  parse :: "string \<Rightarrow> json option"
  stringify :: "json \<Rightarrow> string"
  debug :: bool
  badPattern :: "string \<Rightarrow> bool"

text \<open>\<^verbatim>\<open>json.field = value\<close> on a parsed object.\<close>

fun setField :: "json \<Rightarrow> string \<Rightarrow> json \<Rightarrow> json" where
  "setField (JObj entries) k v = JObj (AList.update k v entries)"
| "setField other k v = other"

text \<open>
  \<^verbatim>\<open>validateTransformation\<close> only logs; what it can do to its caller is raise, when
  a keyword makes an ill-formed pattern.
\<close>

definition validateTransformation :: "Runtime \<Rightarrow> string set \<Rightarrow> error option" where
  "validateTransformation rt keywords =
     (if \<exists>k\<in>keywords. badPattern rt k then Some SyntaxError else None)"

text \<open>The body of the \<^verbatim>\<open>try\<close> block of \<^verbatim>\<open>transformRequestBody\<close>: \<open>Inl\<close> is an
  exception on its way to the \<^verbatim>\<open>catch\<close>.\<close>

definition transformRequestBodyTry ::
  "Runtime \<Rightarrow> SchemaTransformOptions \<Rightarrow> string \<Rightarrow> error + string" where
  "transformRequestBodyTry rt options body =
     (case parse rt body of
        None \<Rightarrow> Inl SyntaxError
      | Some json \<Rightarrow>
          (case safeGet json [''tools''] of
             Some (JArr tools) \<Rightarrow>
               (if tools = [] then Inr body
                else case transformJsonSchema options (JArr tools) of
                  Inl e \<Rightarrow> Inl e
                | Inr tools' \<Rightarrow>
                    (let transformed = stringify rt (setField json ''tools'' tools')
                     in if debug rt
                        then (case validateTransformation rt (keywordsToRemove options) of
                                Some e \<Rightarrow> Inl e
                              | None \<Rightarrow> Inr transformed)
                        else Inr transformed))
           | _ \<Rightarrow> Inr body))"

text \<open>\<^verbatim>\<open>transformRequestBody(body, options)\<close>: the \<^verbatim>\<open>catch\<close> returns the body.\<close>

definition transformRequestBody ::
  "Runtime \<Rightarrow> SchemaTransformOptions \<Rightarrow> string \<Rightarrow> string" where
  "transformRequestBody rt options body =
     (case transformRequestBodyTry rt options body of
        Inl e \<Rightarrow> body
      | Inr result \<Rightarrow> result)"

subsection \<open>Signature injection\<close>

text \<open>The test of the backward search: a plain object with role \<^verbatim>\<open>assistant\<close> and a
  non-empty \<^verbatim>\<open>tool_calls\<close> array.\<close>

definition isTargetMessage :: "json \<Rightarrow> bool" where
  "isTargetMessage msg =
     (isPlainObject (Some msg)
      \<and> safeGet msg [''role''] = Some (JStr ''assistant'')
      \<and> isValidArray (safeGet msg [''tool_calls'']))"

text \<open>\<^verbatim>\<open>for (let i = messages.length - 1; i >= 0; i--)\<close>, with \<open>n\<close> one above the
  position looked at next; \<open>None\<close> is \<^verbatim>\<open>targetIndex === -1\<close>.\<close>

fun searchBackwards :: "json list \<Rightarrow> nat \<Rightarrow> nat option" where
  "searchBackwards messages 0 = None"
| "searchBackwards messages (Suc i) =
     (if isTargetMessage (messages ! i) then Some i else searchBackwards messages i)"

text \<open>
  The writes into the first tool call. A container that is missing or falsy is
  replaced by a fresh object. A container that is a truthy primitive makes the
  assignment of a property raise (the module is strict code). A container that is
  an array takes the property, but \<^verbatim>\<open>JSON.stringify\<close> does not write the named
  properties of an array, so nothing of it reaches the result.
\<close>

definition writeSignature :: "obj \<Rightarrow> string \<Rightarrow> error + obj" where
  "writeSignature firstCall thoughtSignature =
     (let firstCall1 = (if \<not> truthy (map_of firstCall ''extra_content'')
                        then AList.update ''extra_content'' (JObj []) firstCall
                        else firstCall)
      in case map_of firstCall1 ''extra_content'' of
        Some (JObj extraContent) \<Rightarrow>
          (let extraContent1 = (if \<not> truthy (map_of extraContent ''google'')
                                then AList.update ''google'' (JObj []) extraContent
                                else extraContent)
           in case map_of extraContent1 ''google'' of
             Some (JObj google) \<Rightarrow>
               Inr (AList.update ''extra_content''
                     (JObj (AList.update ''google''
                        (JObj (AList.update ''thought_signature'' (JStr thoughtSignature) google))
                        extraContent1))
                     firstCall1)
           | Some (JArr xs) \<Rightarrow> Inr (AList.update ''extra_content'' (JObj extraContent1) firstCall1)
           | _ \<Rightarrow> Inl TypeError)
      | Some (JArr xs) \<Rightarrow> Inr firstCall1
      | _ \<Rightarrow> Inl TypeError)"

text \<open>The body of the \<^verbatim>\<open>try\<close> block of \<^verbatim>\<open>injectThoughtSignature\<close>.\<close>

definition injectThoughtSignatureTry :: "Runtime \<Rightarrow> string \<Rightarrow> string \<Rightarrow> error + string" where
  "injectThoughtSignatureTry rt body thoughtSignature =
     (case parse rt body of
        None \<Rightarrow> Inl SyntaxError
      | Some json \<Rightarrow>
          (case safeGet json [''messages''] of
             Some (JArr messages) \<Rightarrow>
               (if messages = [] then Inr body
                else case searchBackwards messages (length messages) of
                  None \<Rightarrow> Inr body
                | Some targetIndex \<Rightarrow>
                    (case messages ! targetIndex of
                       JObj message \<Rightarrow>
                         (case map_of message ''tool_calls'' of
                            Some (JArr (JObj firstCall # others)) \<Rightarrow>
                              (case writeSignature firstCall thoughtSignature of
                                 Inl e \<Rightarrow> Inl e
                               | Inr firstCall' \<Rightarrow>
                                   Inr (stringify rt
                                     (setField json ''messages''
                                        (JArr (messages[targetIndex :=
                                           JObj (AList.update ''tool_calls''
                                                  (JArr (JObj firstCall' # others)) message)])))))
                          | _ \<Rightarrow> Inr body)
                     | _ \<Rightarrow> Inr body))
           | _ \<Rightarrow> Inr body))"

definition injectThoughtSignature :: "Runtime \<Rightarrow> string \<Rightarrow> string \<Rightarrow> string" where
  "injectThoughtSignature rt body thoughtSignature =
     (case injectThoughtSignatureTry rt body thoughtSignature of
        Inl e \<Rightarrow> body
      | Inr result \<Rightarrow> result)"


subsection \<open>Notions used to state the properties of the injection\<close>

text \<open>Position \<open>i\<close> holds the last message of the history that the search accepts.\<close>

definition lastTargetMessage :: "json list \<Rightarrow> nat \<Rightarrow> bool" where
  "lastTargetMessage messages i =
     (i < length messages \<and> isTargetMessage (messages ! i)
      \<and> (\<forall>j. i < j \<and> j < length messages \<longrightarrow> \<not> isTargetMessage (messages ! j)))"

text \<open>A container the signature can be written through: it is missing or falsy (then
  a fresh object takes its place) or a plain object.\<close>

definition writableContainer :: "json option \<Rightarrow> bool" where
  "writableContainer v = (\<not> truthy v \<or> isPlainObject v)"

definition signatureWritable :: "obj \<Rightarrow> bool" where
  "signatureWritable firstCall =
     (writableContainer (map_of firstCall ''extra_content'')
      \<and> (truthy (map_of firstCall ''extra_content'')
           \<longrightarrow> writableContainer (safeGet (JObj firstCall) [''extra_content'', ''google''])))"

text \<open>A container that is a truthy string, number or boolean.\<close>

definition primitiveContainer :: "json option \<Rightarrow> bool" where
  "primitiveContainer v = (truthy v \<and> (case v of Some x \<Rightarrow> \<not> isObjectValue x | None \<Rightarrow> False))"

definition signatureBlocked :: "obj \<Rightarrow> bool" where
  "signatureBlocked firstCall =
     (primitiveContainer (map_of firstCall ''extra_content'')
      \<or> (isPlainObject (map_of firstCall ''extra_content'')
          \<and> primitiveContainer (safeGet (JObj firstCall) [''extra_content'', ''google''])))"


section \<open>SSE stream patching\<close>

text \<open>\<^verbatim>\<open>STREAM_PATCH_CONFIG\<close>, a module constant; the functions below take it as a
  parameter, and \<open>streamPatchConfig\<close> is its value in the source.\<close>

record StreamPatchConfig =
  filterEmptyChunksAfterToolCalls :: bool
  assignMissingIndices :: bool

definition streamPatchConfig :: StreamPatchConfig where
  "streamPatchConfig = \<lparr>filterEmptyChunksAfterToolCalls = False, assignMissingIndices = True\<rparr>"

text \<open>
  \<^verbatim>\<open>StreamState\<close>. The map of \<^verbatim>\<open>toolCallState\<close> is keyed by whatever the choice
  carries as \<^verbatim>\<open>index\<close>; \<open>None\<close> in \<open>thoughtSignature\<close> is \<^verbatim>\<open>undefined\<close>.
  \<^verbatim>\<open>chunkCount\<close> numbers the events in the messages of the debug log and is read by
  nothing else; it is counted as a natural number (the double of the source stops
  counting at 2^53 events).
\<close>

record StreamState =
  toolCallState :: "json \<rightharpoonup> ChoiceIndexState"
  sawToolCallsFinish :: bool
  chunkCount :: nat
  thoughtSignature :: "string option"

definition initialStreamState :: StreamState where
  "initialStreamState =
     \<lparr>toolCallState = Map.empty, sawToolCallsFinish = False, chunkCount = 0,
      thoughtSignature = None\<rparr>"

text \<open>\<^verbatim>\<open>safeGet(choice, ["index"]) ?? 0\<close>\<close>

definition choiceIndexOf :: "json \<Rightarrow> json" where
  "choiceIndexOf choice =
     (case safeGet choice [''index''] of None \<Rightarrow> JNum 0 | Some JNull \<Rightarrow> JNum 0 | Some v \<Rightarrow> v)"

text \<open>
  \<^verbatim>\<open>getChoiceState\<close> and the write back of the state it hands out. A \<^verbatim>\<open>Map\<close>
  compares an object or array key by identity, and every parsed payload is a fresh
  value: such a key is never found again.
\<close>

definition getChoiceState :: "(json \<rightharpoonup> ChoiceIndexState) \<Rightarrow> json \<Rightarrow> ChoiceIndexState" where
  "getChoiceState state choiceIndex =
     (if isObjectValue choiceIndex then initialChoiceState
      else case state choiceIndex of None \<Rightarrow> initialChoiceState | Some choiceState \<Rightarrow> choiceState)"

definition putChoiceState ::
  "(json \<rightharpoonup> ChoiceIndexState) \<Rightarrow> json \<Rightarrow> ChoiceIndexState \<Rightarrow> (json \<rightharpoonup> ChoiceIndexState)" where
  "putChoiceState state choiceIndex choiceState =
     (if isObjectValue choiceIndex then state else state(choiceIndex \<mapsto> choiceState))"

text \<open>\<^verbatim>\<open>extractThoughtSignature(choices)\<close>\<close>

fun extractThoughtSignature :: "json list \<Rightarrow> string option" where
  "extractThoughtSignature [] = None"
| "extractThoughtSignature (choice # choices) =
     (if \<not> isPlainObject (Some choice) then extractThoughtSignature choices
      else case safeGet choice [''delta''] of
        Some (JObj delta) \<Rightarrow>
          (case nonEmptyString (map_of delta ''thought_signature'') of
             Some directSig \<Rightarrow> Some directSig
           | None \<Rightarrow>
               (case map_of delta ''tool_calls'' of
                  Some (JArr (JObj firstCall # others)) \<Rightarrow>
                    (case nonEmptyString
                            (safeGet (JObj firstCall)
                               [''extra_content'', ''google'', ''thought_signature'']) of
                       Some nestedSig \<Rightarrow> Some nestedSig
                     | None \<Rightarrow> extractThoughtSignature choices)
                | _ \<Rightarrow> extractThoughtSignature choices))
      | _ \<Rightarrow> extractThoughtSignature choices)"

text \<open>
  The loop of \<^verbatim>\<open>shouldFilterEmptyChunk\<close>, from the value of \<^verbatim>\<open>hasValidChoice\<close>
  so far to the final \<^verbatim>\<open>(hasValidChoice, allChoicesEmpty)\<close>; the \<^verbatim>\<open>break\<close> ends it.
\<close>

fun scanChoices :: "json list \<Rightarrow> bool \<Rightarrow> bool \<times> bool" where
  "scanChoices [] hasValidChoice = (hasValidChoice, True)"
| "scanChoices (choice # choices) hasValidChoice =
     (if \<not> isPlainObject (Some choice) then scanChoices choices hasValidChoice
      else case safeGet choice [''delta''] of
        Some (JObj delta) \<Rightarrow>
          (if isValidArray (map_of delta ''tool_calls'') then (True, False)
           else if nonEmptyString (map_of delta ''content'') \<noteq> None then (True, False)
           else scanChoices choices True)
      | _ \<Rightarrow> scanChoices choices hasValidChoice)"

definition shouldFilterEmptyChunk :: "json list \<Rightarrow> bool" where
  "shouldFilterEmptyChunk choices =
     (case scanChoices choices False of
        (hasValidChoice, allChoicesEmpty) \<Rightarrow> hasValidChoice \<and> allChoicesEmpty)"

text \<open>One turn of the loop of \<^verbatim>\<open>patchToolCallIndices\<close>: the choice as it is left, the
  stream state, and whether a call of it was mutated.\<close>

definition patchChoice :: "StreamState \<Rightarrow> json \<Rightarrow> json \<times> StreamState \<times> bool" where
  "patchChoice state choice =
     (if \<not> isPlainObject (Some choice) then (choice, state, False)
      else
        let state1 = (if safeGet choice [''finish_reason''] = Some (JStr ''tool_calls'')
                      then state\<lparr>sawToolCallsFinish := True\<rparr> else state)
        in case safeGet choice [''delta''] of
          Some (JObj delta) \<Rightarrow>
            (case map_of delta ''tool_calls'' of
               Some (JArr toolCalls) \<Rightarrow>
                 (if toolCalls = [] then (choice, state1, False)
                  else
                    let choiceIndex = choiceIndexOf choice;
                        stateForChoice = getChoiceState (toolCallState state1) choiceIndex
                    in case patchCalls stateForChoice toolCalls of
                      (stateForChoice', toolCalls', mutated) \<Rightarrow>
                        (setField choice ''delta''
                           (JObj (AList.update ''tool_calls'' (JArr toolCalls') delta)),
                         state1\<lparr>toolCallState :=
                           putChoiceState (toolCallState state1) choiceIndex stateForChoice'\<rparr>,
                         mutated))
             | _ \<Rightarrow> (choice, state1, False))
        | _ \<Rightarrow> (choice, state1, False))"

fun patchToolCallIndices :: "json list \<Rightarrow> StreamState \<Rightarrow> json list \<times> StreamState \<times> bool" where
  "patchToolCallIndices [] state = ([], state, False)"
| "patchToolCallIndices (choice # choices) state =
     (case patchChoice state choice of
        (choice', state1, wasMutated) \<Rightarrow>
          (case patchToolCallIndices choices state1 of
             (choices', state2, mutated) \<Rightarrow> (choice' # choices', state2, wasMutated \<or> mutated)))"

text \<open>The \<^verbatim>\<open>config\<close> argument of the stream functions.\<close>

record PatchConfig =
  handleThoughtSignature :: bool

text \<open>
  \<^verbatim>\<open>patchChunkPayload(payload, state, config)\<close>: \<^verbatim>\<open>patched\<close>, \<^verbatim>\<open>shouldFilter\<close> and
  the stream state it leaves. Only \<^verbatim>\<open>JSON.parse\<close> can raise in it, before any write.
\<close>

definition patchChunkPayload ::
  "Runtime \<Rightarrow> StreamPatchConfig \<Rightarrow> PatchConfig \<Rightarrow> string \<Rightarrow> StreamState
     \<Rightarrow> string option \<times> bool \<times> StreamState" where
  "patchChunkPayload rt spc config payload state =
     (case parse rt payload of
        None \<Rightarrow> (None, False, state)
      | Some json \<Rightarrow>
          (case safeGet json [''choices''] of
             Some (JArr choices) \<Rightarrow>
               (if choices = [] then (None, False, state)
                else
                  let state1 =
                        (if handleThoughtSignature config
                         then (case extractThoughtSignature choices of
                                 Some sig \<Rightarrow> state\<lparr>thoughtSignature := Some sig\<rparr>
                               | None \<Rightarrow> state)
                         else state)
                  in if filterEmptyChunksAfterToolCalls spc \<and> sawToolCallsFinish state1
                        \<and> shouldFilterEmptyChunk choices
                     then (None, True, state1)
                     else if assignMissingIndices spc
                     then (case patchToolCallIndices choices state1 of
                             (choices', state2, mutated) \<Rightarrow>
                               (if \<not> mutated then (None, False, state2)
                                else (Some (stringify rt (setField json ''choices'' (JArr choices'))),
                                      False, state2)))
                     else (None, False, state1))
           | _ \<Rightarrow> (None, False, state)))"

subsection \<open>Events\<close>

text \<open>The text of an event is modelled on ASCII: the white space of \<^verbatim>\<open>trim\<close> and
  \<^verbatim>\<open>\s\<close> is \<open>isWhiteSpace\<close>, and an event with white space beyond ASCII is outside
  the model. \<open>LF\<close> and \<open>CR\<close> are the line feed and the carriage return.\<close>

definition LF :: char where "LF = CHR 0x0A"

definition CR :: char where "CR = CHR 0x0D"

text \<open>\<^verbatim>\<open>s.split("\n")\<close> and \<^verbatim>\<open>lines.join("\n")\<close>\<close>

fun splitLines :: "string \<Rightarrow> string list" where
  "splitLines [] = [[]]"
| "splitLines (c # cs) =
     (if c = LF then [] # splitLines cs
      else case splitLines cs of
        [] \<Rightarrow> [[c]]
      | line # lines \<Rightarrow> (c # line) # lines)"

fun joinLines :: "string list \<Rightarrow> string" where
  "joinLines [] = []"
| "joinLines [line] = line"
| "joinLines (line # lines) = line @ LF # joinLines lines"

text \<open>\<^verbatim>\<open>line.startsWith("data:")\<close> and \<^verbatim>\<open>line.slice(5).replace(/^\s/, "")\<close>\<close>

definition isDataLine :: "string \<Rightarrow> bool" where
  "isDataLine line = (take 5 line = ''data:'')"

definition dataOf :: "string \<Rightarrow> string" where
  "dataOf line =
     (let rest = drop 5 line
      in if rest \<noteq> [] \<and> isWhiteSpace (hd rest) then tl rest else rest)"

definition payloadOf :: "string \<Rightarrow> string" where
  "payloadOf event = joinLines (map dataOf (filter isDataLine (splitLines event)))"

text \<open>\<^verbatim>\<open>!event.trim()\<close>\<close>

definition isBlank :: "string \<Rightarrow> bool" where
  "isBlank s = list_all isWhiteSpace s"

text \<open>\<^verbatim>\<open>transformEvent(event, state, config)\<close>: \<open>None\<close> is \<^verbatim>\<open>null\<close>, the event is
  dropped.\<close>

definition transformEvent ::
  "Runtime \<Rightarrow> StreamPatchConfig \<Rightarrow> PatchConfig \<Rightarrow> string \<Rightarrow> StreamState
     \<Rightarrow> string option \<times> StreamState" where
  "transformEvent rt spc config event state =
     (if isBlank event then (Some event, state)
      else
        let state1 = state\<lparr>chunkCount := chunkCount state + 1\<rparr>;
            lines = splitLines event;
            dataLines = filter isDataLine lines
        in if dataLines = [] then (Some event, state1)
           else
             let payload = joinLines (map dataOf dataLines)
             in if payload = [] \<or> payload = ''[DONE]'' then (Some event, state1)
                else case patchChunkPayload rt spc config payload state1 of
                  (patched, shouldFilter, state2) \<Rightarrow>
                    (if shouldFilter then (None, state2)
                     else case patched of
                       None \<Rightarrow> (Some event, state2)
                     | Some p \<Rightarrow>
                         (if p = [] then (Some event, state2)
                          else
                            let otherLines = filter (\<lambda>line. \<not> isDataLine line) lines;
                                patchedLines = map (\<lambda>line. ''data: '' @ line) (splitLines p)
                            in (Some (joinLines (otherLines @ patchedLines)), state2))))"

subsection \<open>The stream\<close>

text \<open>\<^verbatim>\<open>text.replace(/\r\n/g, "\n")\<close>\<close>

fun normalizeLineEndings :: "string \<Rightarrow> string" where
  "normalizeLineEndings [] = []"
| "normalizeLineEndings [c] = [c]"
| "normalizeLineEndings (c # d # cs) =
     (if c = CR \<and> d = LF then LF # normalizeLineEndings cs
      else c # normalizeLineEndings (d # cs))"

text \<open>\<^verbatim>\<open>buffer.indexOf("\n\n")\<close>, with the two slices around it: the event before
  the first blank line and the rest after it.\<close>

fun cutEvent :: "string \<Rightarrow> (string \<times> string) option" where
  "cutEvent [] = None"
| "cutEvent [c] = None"
| "cutEvent (c # d # cs) =
     (if c = LF \<and> d = LF then Some ([], cs)
      else case cutEvent (d # cs) of
        None \<Rightarrow> None
      | Some (event, rest) \<Rightarrow> Some (c # event, rest))"

text \<open>What \<^verbatim>\<open>controller.enqueue(encoder.encode(`${transformed}\n\n`))\<close> sends for a
  transformed event, and nothing for a dropped one.\<close>

definition enqueued :: "string option \<Rightarrow> string list" where
  "enqueued transformed = (case transformed of None \<Rightarrow> [] | Some t \<Rightarrow> [t @ [LF, LF]])"

lemma cutEvent_shorter: "cutEvent buffer = Some (event, rest) \<Longrightarrow> length rest < length buffer"
  by (induction buffer arbitrary: event rule: cutEvent.induct)
     (auto split: if_splits option.splits)

text \<open>
  The loop \<^verbatim>\<open>while ((boundary = buffer.indexOf("\n\n")) !== -1)\<close> of the
  \<^verbatim>\<open>pull\<close> handler: the buffer left, the stream state, and what was enqueued.
\<close>

function drainBuffer ::
  "Runtime \<Rightarrow> StreamPatchConfig \<Rightarrow> PatchConfig \<Rightarrow> string \<Rightarrow> StreamState
     \<Rightarrow> string \<times> StreamState \<times> string list" where
  "drainBuffer rt spc config buffer state =
     (case cutEvent buffer of
        None \<Rightarrow> (buffer, state, [])
      | Some (event, rest) \<Rightarrow>
          (case transformEvent rt spc config event state of
             (transformed, state1) \<Rightarrow>
               (case drainBuffer rt spc config rest state1 of
                  (buffer', state2, out) \<Rightarrow> (buffer', state2, enqueued transformed @ out))))"
  by pat_completeness auto
termination
  by (relation "measure (\<lambda>(rt, spc, config, buffer, state). length buffer)")
     (auto dest: cutEvent_shorter)

text \<open>
  One \<^verbatim>\<open>pull\<close> that reads a chunk: the text of the chunk, as the decoder gives it,
  goes through the replacement of line endings and onto the buffer, then the loop
  runs.
\<close>

definition pullChunk ::
  "Runtime \<Rightarrow> StreamPatchConfig \<Rightarrow> PatchConfig \<Rightarrow> string \<Rightarrow> StreamState \<Rightarrow> string
     \<Rightarrow> string \<times> StreamState \<times> string list" where
  "pullChunk rt spc config buffer state chunk =
     drainBuffer rt spc config (buffer @ normalizeLineEndings chunk) state"

text \<open>
  The \<^verbatim>\<open>pull\<close> that reads \<^verbatim>\<open>done\<close>, in the order of the source: the signature of
  the stream state is stored in the shared state, then the rest of the buffer is
  flushed. It gives what was enqueued, the shared signature and the stream state.
\<close>

definition pullDone ::
  "Runtime \<Rightarrow> StreamPatchConfig \<Rightarrow> PatchConfig \<Rightarrow> string \<Rightarrow> StreamState \<Rightarrow> string option
     \<Rightarrow> string list \<times> string option \<times> StreamState" where
  "pullDone rt spc config buffer state shared =
     (let shared' = (if handleThoughtSignature config
                        \<and> truthy (map_option JStr (thoughtSignature state))
                     then thoughtSignature state else shared)
      in if \<not> isBlank buffer
         then (case transformEvent rt spc config buffer state of
                 (transformed, state') \<Rightarrow> (enqueued transformed, shared', state'))
         else ([], shared', state))"

text \<open>
  The reads of a whole stream: its chunks, then \<^verbatim>\<open>done\<close>, one \<^verbatim>\<open>pull\<close> after the
  other to the end of the upstream. When \<^verbatim>\<open>pull\<close> is called is the business of the
  \<^verbatim>\<open>ReadableStream\<close> of the runtime, which calls it again only after a chunk was
  enqueued or a read arrived meanwhile: a stream that stops pulling because two pulls
  in a row enqueued nothing is not modelled.
\<close>

fun pullAll ::
  "Runtime \<Rightarrow> StreamPatchConfig \<Rightarrow> PatchConfig \<Rightarrow> string list \<Rightarrow> string \<Rightarrow> StreamState
     \<Rightarrow> string option \<Rightarrow> string list \<times> string option \<times> StreamState" where
  "pullAll rt spc config [] buffer state shared = pullDone rt spc config buffer state shared"
| "pullAll rt spc config (chunk # chunks) buffer state shared =
     (case pullChunk rt spc config buffer state chunk of
        (buffer', state', out) \<Rightarrow>
          (case pullAll rt spc config chunks buffer' state' shared of
             (out', shared', state'') \<Rightarrow> (out @ out', shared', state'')))"

text \<open>\<^verbatim>\<open>patchSseStream(stream, sharedSignatureState, config)\<close>, read to its end: the
  chunks enqueued and the shared signature afterwards.\<close>

definition patchSseStream ::
  "Runtime \<Rightarrow> StreamPatchConfig \<Rightarrow> PatchConfig \<Rightarrow> string list \<Rightarrow> string option
     \<Rightarrow> string list \<times> string option" where
  "patchSseStream rt spc config chunks shared =
     (case pullAll rt spc config chunks [] initialStreamState shared of
        (out, shared', state) \<Rightarrow> (out, shared'))"

subsection \<open>A runtime for worked examples\<close>

text \<open>
  In the examples \<^verbatim>\<open>JSON.parse\<close> and \<^verbatim>\<open>JSON.stringify\<close> are read off a table of
  texts and the values they stand for; a text outside the table does not parse.
\<close>

definition tableRuntime :: "(string \<times> json) list \<Rightarrow> Runtime" where
  "tableRuntime table =
     \<lparr>parse = map_of table,
      stringify = (\<lambda>j. case map_of (map (\<lambda>(text, value). (value, text)) table) j of
                          Some text \<Rightarrow> text
                        | None \<Rightarrow> ''null''),
      debug = False,
      badPattern = (\<lambda>k. False)\<rparr>"


subsection \<open>Notions used to state the properties of the stream\<close>

text \<open>The events of a stream go through \<^verbatim>\<open>transformEvent\<close> one after the other,
  each against the state the one before left.\<close>

fun runEvents ::
  "Runtime \<Rightarrow> StreamPatchConfig \<Rightarrow> PatchConfig \<Rightarrow> string list \<Rightarrow> StreamState \<Rightarrow> StreamState" where
  "runEvents rt spc config [] state = state"
| "runEvents rt spc config (event # events) state =
     runEvents rt spc config events (snd (transformEvent rt spc config event state))"

text \<open>The events the loop of \<^verbatim>\<open>pull\<close> cuts from a buffer.\<close>

function cutAll :: "string \<Rightarrow> string list" where
  "cutAll buffer =
     (case cutEvent buffer of None \<Rightarrow> [] | Some (event, rest) \<Rightarrow> event # cutAll rest)"
  by pat_completeness auto
termination
  by (relation "measure length") (auto dest: cutEvent_shorter)

text \<open>The JSON an event carries: its payload parsed, unless the payload is empty or
  the end marker, which never reach the parser.\<close>

definition eventJson :: "Runtime \<Rightarrow> string \<Rightarrow> json option" where
  "eventJson rt event =
     (if payloadOf event = [] \<or> payloadOf event = ''[DONE]'' then None
      else parse rt (payloadOf event))"

text \<open>An event carries \<^verbatim>\<open>finish_reason: "tool_calls"\<close> on a choice: its payload is
  JSON whose \<^verbatim>\<open>choices\<close> array has such a choice.\<close>

definition carriesToolCallsFinish :: "Runtime \<Rightarrow> string \<Rightarrow> bool" where
  "carriesToolCallsFinish rt event =
     (case eventJson rt event of
        Some json \<Rightarrow>
          (case safeGet json [''choices''] of
             Some (JArr choices) \<Rightarrow>
               list_ex (\<lambda>choice. isPlainObject (Some choice)
                          \<and> safeGet choice [''finish_reason''] = Some (JStr ''tool_calls''))
                 choices
           | _ \<Rightarrow> False)
      | None \<Rightarrow> False)"

text \<open>A choice has a delta object; its delta has a non-empty content string or a
  non-empty tool-call array.\<close>

definition hasDelta :: "json \<Rightarrow> bool" where
  "hasDelta choice = (isPlainObject (Some choice) \<and> isPlainObject (safeGet choice [''delta'']))"

definition deltaHasContent :: "json \<Rightarrow> bool" where
  "deltaHasContent choice =
     (isValidArray (safeGet choice [''delta'', ''tool_calls''])
      \<or> nonEmptyString (safeGet choice [''delta'', ''content'']) \<noteq> None)"

text \<open>The event is empty, in the words of the specification: no choice with a delta
  object has content, and at least one choice has a delta object.\<close>

definition allDeltasEmpty :: "json list \<Rightarrow> bool" where
  "allDeltasEmpty choices =
     (list_all (\<lambda>choice. hasDelta choice \<longrightarrow> \<not> deltaHasContent choice) choices
      \<and> list_ex hasDelta choices)"


subsection \<open>Payloads of the worked examples\<close>

definition noChoicesText :: string where
  "noChoicesText = ''{\"choices\":[]}''"

definition noChoicesJson :: json where
  "noChoicesJson = JObj [(''choices'', JArr [])]"

definition finishText :: string where
  "finishText = ''{\"choices\":[{\"index\":0,\"delta\":{},\"finish_reason\":\"tool_calls\"}]}''"

definition finishJson :: json where
  "finishJson =
     JObj [(''choices'',
            JArr [JObj [(''index'', JNum 0), (''delta'', JObj []),
                        (''finish_reason'', JStr ''tool_calls'')]])]"

definition emptyDeltaText :: string where
  "emptyDeltaText = ''{\"choices\":[{\"index\":0,\"delta\":{}}]}''"

definition emptyDeltaJson :: json where
  "emptyDeltaJson = JObj [(''choices'', JArr [JObj [(''index'', JNum 0), (''delta'', JObj [])]])]"

definition signatureText :: string where
  "signatureText = ''{\"choices\":[{\"delta\":{\"thought_signature\":\"sig\"}}]}''"

definition signatureJson :: json where
  "signatureJson =
     JObj [(''choices'', JArr [JObj [(''delta'', JObj [(''thought_signature'', JStr ''sig'')])]])]"

text \<open>The runtime of the stream examples. A payload followed by a carriage return
  parses to the same value: white space around a JSON text is ignored.\<close>

definition streamRuntime :: Runtime where
  "streamRuntime =
     tableRuntime
       [(noChoicesText, noChoicesJson), (noChoicesText @ [CR], noChoicesJson),
        (finishText, finishJson), (emptyDeltaText, emptyDeltaJson),
        (signatureText, signatureJson)]"

definition toolsText :: string where
  "toolsText = ''{\"tools\":[{\"parameters\":{\"const\":1,\"$ref\":\"x\"}}]}''"

definition toolsJson :: json where
  "toolsJson =
     JObj [(''tools'',
            JArr [JObj [(''parameters'', JObj [(''const'', JNum 1), (''$ref'', JStr ''x'')])]])]"

definition toolsOutText :: string where
  "toolsOutText = ''{\"tools\":[{\"parameters\":{\"enum\":[1]}}]}''"

definition toolsOutJson :: json where
  "toolsOutJson =
     JObj [(''tools'', JArr [JObj [(''parameters'', JObj [(''enum'', JArr [JNum 1])])]])]"

definition noToolsText :: string where
  "noToolsText = ''{\"model\":\"m\",\"tools\":[]}''"

definition noToolsJson :: json where
  "noToolsJson = JObj [(''model'', JStr ''m''), (''tools'', JArr [])]"

definition requestRuntime :: Runtime where
  "requestRuntime =
     tableRuntime
       [(toolsText, toolsJson), (toolsOutText, toolsOutJson), (noToolsText, noToolsJson)]"

text \<open>Options whose transform for \<^verbatim>\<open>parameters\<close> raises.\<close>

definition raisingOptions :: SchemaTransformOptions where
  "raisingOptions =
     \<lparr>keywordsToRemove = {},
      keywordTransforms = [''parameters'' \<mapsto> (\<lambda>v. Inl (Thrown ''boom''))]\<rparr>"

text \<open>A history whose last assistant turn made two tool calls, before and after the
  injection of the signature \<^verbatim>\<open>sig\<close>.\<close>

definition historyText :: string where
  "historyText =
     ''{\"messages\":[{\"role\":\"user\",\"content\":\"hi\"},{\"role\":\"assistant\",\"tool_calls\":[{\"id\":\"1\"},{\"id\":\"2\"}]},{\"role\":\"tool\",\"content\":\"ok\"}]}''"

definition historyMessages :: "json list" where
  "historyMessages =
     [JObj [(''role'', JStr ''user''), (''content'', JStr ''hi'')],
      JObj [(''role'', JStr ''assistant''),
            (''tool_calls'', JArr [JObj [(''id'', JStr ''1'')], JObj [(''id'', JStr ''2'')]])],
      JObj [(''role'', JStr ''tool''), (''content'', JStr ''ok'')]]"

definition historyOutText :: string where
  "historyOutText =
     ''{\"messages\":[{\"role\":\"user\",\"content\":\"hi\"},{\"role\":\"assistant\",\"tool_calls\":[{\"id\":\"1\",\"extra_content\":{\"google\":{\"thought_signature\":\"sig\"}}},{\"id\":\"2\"}]},{\"role\":\"tool\",\"content\":\"ok\"}]}''"

definition historyOutMessages :: "json list" where
  "historyOutMessages =
     [JObj [(''role'', JStr ''user''), (''content'', JStr ''hi'')],
      JObj [(''role'', JStr ''assistant''),
            (''tool_calls'',
             JArr [JObj [(''id'', JStr ''1''),
                         (''extra_content'',
                          JObj [(''google'', JObj [(''thought_signature'', JStr ''sig'')])])],
                   JObj [(''id'', JStr ''2'')]])],
      JObj [(''role'', JStr ''tool''), (''content'', JStr ''ok'')]]"

text \<open>An assistant turn whose first tool call is a string, and one whose first tool
  call has an array for \<^verbatim>\<open>extra_content\<close>; the second text has a space that the
  serializer does not write back.\<close>

definition stringCallText :: string where
  "stringCallText = ''{\"messages\":[{\"role\":\"assistant\",\"tool_calls\":[\"x\"]}]}''"

definition stringCallMessage :: json where
  "stringCallMessage = JObj [(''role'', JStr ''assistant''), (''tool_calls'', JArr [JStr ''x''])]"

definition arrayContainerText :: string where
  "arrayContainerText =
     ''{\"messages\": [{\"role\":\"assistant\",\"tool_calls\":[{\"extra_content\":[]}]}]}''"

definition arrayContainerOutText :: string where
  "arrayContainerOutText =
     ''{\"messages\":[{\"role\":\"assistant\",\"tool_calls\":[{\"extra_content\":[]}]}]}''"

definition arrayContainerMessage :: json where
  "arrayContainerMessage =
     JObj [(''role'', JStr ''assistant''),
           (''tool_calls'', JArr [JObj [(''extra_content'', JArr [])]])]"

definition injectRuntime :: Runtime where
  "injectRuntime =
     tableRuntime
       [(historyText, JObj [(''messages'', JArr historyMessages)]),
        (historyOutText, JObj [(''messages'', JArr historyOutMessages)]),
        (stringCallText, JObj [(''messages'', JArr [stringCallMessage])]),
        (arrayContainerOutText, JObj [(''messages'', JArr [arrayContainerMessage])]),
        (arrayContainerText, JObj [(''messages'', JArr [arrayContainerMessage])])]"

text \<open>The schema of the example in the documentation of \<^verbatim>\<open>transformJsonSchema\<close>, and
  its transform.\<close>

definition personSchema :: json where
  "personSchema =
     JObj [(''type'', JStr ''object''),
           (''properties'',
            JObj [(''name'', JObj [(''type'', JStr ''string''), (''const'', JStr ''John'')]),
                  (''age'', JObj [(''type'', JStr ''number'')])]),
           (''propertyNames'', JObj [(''pattern'', JStr ''^[a-z]+$'')])]"

definition personSchemaOut :: json where
  "personSchemaOut =
     JObj [(''type'', JStr ''object''),
           (''properties'',
            JObj [(''name'', JObj [(''type'', JStr ''string''), (''enum'', JArr [JStr ''John''])]),
                  (''age'', JObj [(''type'', JStr ''number'')])])]"


section \<open>Properties of the index tracker\<close>

declare decimalNat.simps [simp del] bitLength.simps [simp del]

lemma roundInt_exact: "\<bar>n\<bar> < 2 ^ 53 \<Longrightarrow> roundInt n = n"
  by (simp add: roundInt_def roundNat_def nat_less_iff abs_less_iff)

lemma roundInt_2_53: "roundInt (2 ^ 53) = 2 ^ 53" "roundInt (- (2 ^ 53)) = - (2 ^ 53)"
  by (simp_all add: roundInt_def roundNat_def bitLength.simps Let_def)

lemma roundInt_2_53_1: "roundInt (2 ^ 53 + 1) = 2 ^ 53"
  by (simp add: roundInt_def roundNat_def bitLength.simps Let_def)

lemma roundInt_exact_le: "\<bar>n\<bar> \<le> 2 ^ 53 \<Longrightarrow> roundInt n = n"
proof -
  assume "\<bar>n\<bar> \<le> 2 ^ 53"
  then consider "\<bar>n\<bar> < 2 ^ 53" | "n = 2 ^ 53" | "n = - (2 ^ 53)" by linarith
  then show ?thesis
    using roundInt_2_53 by cases (simp_all add: roundInt_exact)
qed

lemma toNumber_exact: "\<bar>n\<bar> < 2 ^ 53 \<Longrightarrow> toNumber n = Finite n"
proof -
  assume n: "\<bar>n\<bar> < 2 ^ 53"
  have "(2::int) ^ 53 < 2 ^ 1024" by simp
  with n have "\<not> 2 ^ 1024 \<le> n" "\<not> n \<le> - (2 ^ 1024)" by linarith+
  then show ?thesis by (simp add: toNumber_def roundInt_exact [OF n])
qed

lemma bitLength_bounds: "0 < m \<Longrightarrow> 2 ^ (bitLength m - 1) \<le> m \<and> m < 2 ^ bitLength m"
proof (induction m rule: bitLength.induct)
  case (1 n)
  show ?case
  proof (cases "n div 2 = 0")
    case True
    with 1(2) have "n = 1" by presburger
    then show ?thesis by (simp add: bitLength.simps)
  next
    case False
    then have pos: "0 < n div 2" by simp
    with 1 have ih: "2 ^ (bitLength (n div 2) - 1) \<le> n div 2"
      "n div 2 < 2 ^ bitLength (n div 2)" by simp_all
    have bl: "bitLength n = Suc (bitLength (n div 2))"
      using 1(2) by (subst bitLength.simps) simp
    have "0 < bitLength (n div 2)"
      using pos by (subst bitLength.simps) simp
    then obtain b where b: "bitLength (n div 2) = Suc b"
      by (cases "bitLength (n div 2)") simp_all
    define P where "P = (2::nat) ^ b"
    from ih have "P \<le> n div 2" "n div 2 < 2 * P" by (simp_all add: b P_def)
    moreover have "2 * (n div 2) \<le> n" "n < 2 * (n div 2) + 2" by linarith+
    ultimately have "2 * P \<le> n \<and> n < 2 * (2 * P)" by linarith
    then show ?thesis by (simp add: bl b P_def)
  qed
qed

lemma roundNat_lower:
  assumes "2 ^ 53 \<le> m"
  shows "2 ^ (bitLength m - 1) \<le> roundNat m"
proof -
  from assms have pos: "0 < m" by (simp add: order.strict_trans2 [of 0 "2 ^ 53" m])
  define k where "k = bitLength m - 1"
  from bitLength_bounds [OF pos] have lo: "2 ^ k \<le> m" and hi: "m < 2 ^ bitLength m"
    by (simp_all add: k_def)
  from assms hi have "(2::nat) ^ 53 < 2 ^ bitLength m" by (rule le_less_trans)
  then have b: "53 < bitLength m" by (rule power_less_imp_less_exp [rotated]) simp
  define e where "e = bitLength m - 53"
  from b have ke: "k = 52 + e" by (simp add: k_def e_def)
  have "2 ^ 52 * 2 ^ e \<le> m" using lo by (simp add: ke power_add)
  then have q: "2 ^ 52 \<le> m div 2 ^ e"
    by (simp add: less_eq_div_iff_mult_less_eq)
  then have "2 ^ 52 * 2 ^ e \<le> (m div 2 ^ e) * 2 ^ e" by simp
  then have low: "2 ^ k \<le> (m div 2 ^ e) * 2 ^ e" by (simp add: ke power_add)
  have "(m div 2 ^ e) * 2 ^ e \<le> roundNat m"
    using assms by (simp add: roundNat_def Let_def e_def [symmetric])
  with low show ?thesis unfolding k_def by (rule order_trans)
qed

lemma toNumber_overflow:
  assumes "2 ^ 1024 \<le> n"
  shows "toNumber n = PosInfinity"
proof -
  have n0: "0 \<le> n" using assms by (rule order_trans [rotated]) simp
  define m where "m = nat n"
  have m: "2 ^ 1024 \<le> m" using assms n0 by (simp add: m_def le_nat_iff)
  then have m53: "2 ^ 53 \<le> m" by (rule order_trans [rotated]) simp
  then have pos: "0 < m" by (simp add: order.strict_trans2 [of 0 "2 ^ 53" m])
  from bitLength_bounds [OF pos] m have "(2::nat) ^ 1024 < 2 ^ bitLength m"
    by (meson le_less_trans)
  then have "1024 < bitLength m" by (rule power_less_imp_less_exp [rotated]) simp
  then have "1024 \<le> bitLength m - 1" by simp
  then have "(2::nat) ^ 1024 \<le> 2 ^ (bitLength m - 1)" by (rule power_increasing) simp
  from this roundNat_lower [OF m53] have "2 ^ 1024 \<le> roundNat m" by (rule order_trans)
  then have "2 ^ 1024 \<le> int (roundNat m)"
    by (metis of_nat_le_iff of_nat_numeral of_nat_power)
  then show ?thesis using n0 by (simp add: toNumber_def roundInt_def m_def Let_def)
qed

lemma digit_chars:
  "char_of (48::nat) = CHR ''0''" "char_of (49::nat) = CHR ''1''"
  "char_of (50::nat) = CHR ''2''" "char_of (51::nat) = CHR ''3''"
  "char_of (52::nat) = CHR ''4''" "char_of (53::nat) = CHR ''5''"
  "char_of (54::nat) = CHR ''6''" "char_of (55::nat) = CHR ''7''"
  "char_of (56::nat) = CHR ''8''" "char_of (57::nat) = CHR ''9''"
  by code_simp+

lemma decimalNat_power10: "decimalNat (10 ^ k) = CHR ''1'' # replicate k (CHR ''0'')"
proof (induction k)
  case 0
  show ?case by (simp add: decimalNat.simps digit_chars)
next
  case (Suc k)
  have "decimalNat (10 ^ Suc k) = decimalNat (10 ^ k) @ [CHR ''0'']"
    by (subst decimalNat.simps) (simp add: digit_chars)
  then show ?case by (simp add: Suc replicate_append_same)
qed


lemma digitsValue_snoc: "digitsValue (ds @ [c]) = 10 * digitsValue ds + digitValue c"
  by (simp add: digitsValue_def)

lemma digit_char: "d < 10 \<Longrightarrow> isDigit (char_of (48 + d)) \<and> digitValue (char_of (48 + d)) = d"
  by (simp add: isDigit_def digitValue_def)

lemma decimalNat_digits:
  "list_all isDigit (decimalNat n) \<and> decimalNat n \<noteq> [] \<and> digitsValue (decimalNat n) = n"
proof (induction n rule: decimalNat.induct)
  case (1 n)
  show ?case
  proof (cases "n < 10")
    case True
    then show ?thesis
      using digit_char [of n] by (simp add: decimalNat.simps [of n] digitsValue_def)
  next
    case False
    have d: "n mod 10 < 10" by simp
    from False 1 have ih: "list_all isDigit (decimalNat (n div 10))"
      "digitsValue (decimalNat (n div 10)) = n div 10" by simp_all
    show ?thesis
      using False ih digit_char [OF d]
      by (simp add: decimalNat.simps [of n] digitsValue_snoc)
  qed
qed

lemma takeWhile_all: "list_all P xs \<Longrightarrow> takeWhile P xs = xs"
  by (induction xs) auto

lemma digit_not_special:
  "isDigit c \<Longrightarrow> \<not> isWhiteSpace c \<and> c \<noteq> CHR ''-'' \<and> c \<noteq> CHR ''+''"
  by (auto simp: isDigit_def isWhiteSpace_def)

lemma skipWhiteSpace_start:
  assumes "isDigit a \<or> a = CHR ''-''"
  shows "skipWhiteSpace (a # rest) = a # rest"
proof -
  have a: "\<not> isWhiteSpace a" "\<And>b. \<not> isWhiteSpace2 a b" "\<And>b c. \<not> isWhiteSpace3 a b c"
    using assms
    by (auto simp: isDigit_def isWhiteSpace_def isWhiteSpace2_def isWhiteSpace3_def)
  show ?thesis
  proof (cases rest)
    case Nil
    then show ?thesis by (simp add: a)
  next
    case (Cons b rest')
    then show ?thesis by (cases rest') (simp_all add: a)
  qed
qed

lemma parseInt_digits:
  assumes "list_all isDigit ds" "ds \<noteq> []"
  shows "parseInt ds = toNumber (int (digitsValue ds))"
    and "parseInt (CHR ''-'' # ds) = toNumber (- int (digitsValue ds))"
proof -
  obtain c cs where ds: "ds = c # cs" using assms(2) by (cases ds) auto
  with assms(1) have c: "isDigit c" by simp
  have tw: "takeWhile isDigit ds = ds" using assms(1) by (rule takeWhile_all)
  have dw: "skipWhiteSpace ds = ds"
    using skipWhiteSpace_start [of c cs] c by (simp add: ds)
  have hd: "hd ds \<noteq> CHR ''-''" "hd ds \<noteq> CHR ''+''"
    using digit_not_special [OF c] by (simp_all add: ds)
  show "parseInt ds = toNumber (int (digitsValue ds))"
    unfolding parseInt_def Let_def dw using hd assms(2) by (simp add: tw)
  have "skipWhiteSpace (CHR ''-'' # ds) = CHR ''-'' # ds"
    by (rule skipWhiteSpace_start) simp
  then show "parseInt (CHR ''-'' # ds) = toNumber (- int (digitsValue ds))"
    unfolding parseInt_def Let_def using assms(2) by (simp add: tw)
qed

lemma parseInt_decimal: "parseInt (decimal n) = toNumber n"
  using decimalNat_digits [of "nat n"] decimalNat_digits [of "nat (- n)"]
  by (simp add: decimal_def parseInt_digits)

lemma safeGet_delete:
  "k \<noteq> k' \<Longrightarrow> safeGet (JObj (AList.delete k al)) (k' # ks) = safeGet (JObj al) (k' # ks)"
  by (simp add: delete_conv')

lemma safeGet_update:
  "k \<noteq> k' \<Longrightarrow> safeGet (JObj (AList.update k v al)) (k' # ks) = safeGet (JObj al) (k' # ks)"
  by (simp add: update_conv')

lemma getToolCallKey_delete_index:
  "getToolCallKey (JObj (AList.delete ''index'' call)) = getToolCallKey (JObj call)"
  by (simp add: getToolCallKey_def safeGet_delete del: safeGet.simps cong: option.case_cong)

lemma map_of_update_delete:
  "map_of (AList.update k v (AList.delete k al)) = map_of (AList.update k v al)"
  by (simp add: update_conv' delete_conv')

lemmas index_eval =
  parseInt_def isWhiteSpace_def isWhiteSpace2_def isWhiteSpace3_def isDigit_def
  digitsValue_def digitValue_def toNumber_def roundInt_def roundNat_def
  getToolCallKey_def setAssigned_def nonEmptyString_def ensureToolCallIndex_def
  suppliedIndex_def convertIndex_def initialChoiceState_def Let_def

text \<open>
  Claim C7, as far as it holds. A fragment whose \<^verbatim>\<open>index\<close> is a string that
  \<^verbatim>\<open>parseInt\<close> reads as the finite number \<open>n\<close> has it rewritten to the number \<open>n\<close>
  and the call is reported mutated; the next free index of the choice becomes the
  larger of what it was and the double nearest to \<open>n + 1\<close>, which is at least
  \<open>n + 1\<close> when \<open>n\<close> is an integer that doubles count exactly (below 2^53 in
  absolute value). The decimal numeral of every such integer parses to it (the last
  conjunct). When the string parses to \<^verbatim>\<open>NaN\<close> or to an infinity, the tracker does
  what it does for the same fragment without an index field: same state, same flag,
  same fields.
\<close>

theorem ensureToolCallIndex_string_index:
  assumes "map_of call ''index'' = Some (JStr s)"
  shows "(parseInt s = Finite n \<longrightarrow>
           ensureToolCallIndex state call =
             (\<lparr>nextIndex = max (nextIndex state) (roundInt (n + 1)),
               assigned = setAssigned (getToolCallKey (JObj call)) n (assigned state)\<rparr>,
              AList.update ''index'' (JNum n) call, True)
           \<and> map_of (fst (snd (ensureToolCallIndex state call))) ''index'' = Some (JNum n)
           \<and> (\<bar>n\<bar> < 2 ^ 53 \<longrightarrow>
                n + 1 \<le> nextIndex (fst (ensureToolCallIndex state call))))
       \<and> (parseInt s = NaN \<or> parseInt s = PosInfinity \<or> parseInt s = NegInfinity \<longrightarrow>
           (case (ensureToolCallIndex state call,
                  ensureToolCallIndex state (AList.delete ''index'' call)) of
              ((st1, c1, m1), (st2, c2, m2)) \<Rightarrow>
                st1 = st2 \<and> m1 = m2 \<and> m1 \<and> map_of c1 = map_of c2
                \<and> (\<exists>i. map_of c1 ''index'' = Some (JNum i))))
       \<and> (\<bar>n\<bar> < 2 ^ 53 \<longrightarrow> parseInt (decimal n) = Finite n)"
proof (intro conjI impI)
  assume p: "parseInt s = Finite n"
  show e: "ensureToolCallIndex state call =
             (\<lparr>nextIndex = max (nextIndex state) (roundInt (n + 1)),
               assigned = setAssigned (getToolCallKey (JObj call)) n (assigned state)\<rparr>,
              AList.update ''index'' (JNum n) call, True)"
    using assms p by (simp add: ensureToolCallIndex_def suppliedIndex_def convertIndex_def Let_def)
  show "map_of (fst (snd (ensureToolCallIndex state call))) ''index'' = Some (JNum n)"
    by (simp add: e update_conv')
  assume "\<bar>n\<bar> < 2 ^ 53"
  then have "\<bar>n + 1\<bar> \<le> 2 ^ 53" by simp
  then have "roundInt (n + 1) = n + 1" by (rule roundInt_exact_le)
  then show "n + 1 \<le> nextIndex (fst (ensureToolCallIndex state call))"
    by (simp add: e)
next
  assume p: "parseInt s = NaN \<or> parseInt s = PosInfinity \<or> parseInt s = NegInfinity"
  have s1: "convertIndex call = (None, False)"
    using assms p by (auto simp: convertIndex_def)
  have s2: "convertIndex (AList.delete ''index'' call) = (None, False)"
    by (simp add: convertIndex_def delete_conv')
  show "case (ensureToolCallIndex state call,
                  ensureToolCallIndex state (AList.delete ''index'' call)) of
              ((st1, c1, m1), (st2, c2, m2)) \<Rightarrow>
                st1 = st2 \<and> m1 = m2 \<and> m1 \<and> map_of c1 = map_of c2
                \<and> (\<exists>i. map_of c1 ''index'' = Some (JNum i))"
    using assms
    by (simp add: ensureToolCallIndex_def Let_def s1 s2 getToolCallKey_delete_index
        map_of_update_delete update_conv' delete_conv' split: option.splits)
next
  assume "\<bar>n\<bar> < 2 ^ 53"
  then show "parseInt (decimal n) = Finite n"
    by (simp add: parseInt_decimal toNumber_exact)
qed

theorem ensureToolCallIndex_string_index_witness:
  "map_of [(''id'', JStr ''a''), (''index'', JStr ''2'')] ''index'' = Some (JStr ''2'')
   \<and> parseInt ''2'' = Finite 2
   \<and> \<bar>2 :: int\<bar> < 2 ^ 53
   \<and> ensureToolCallIndex initialChoiceState [(''id'', JStr ''a''), (''index'', JStr ''2'')] =
     (\<lparr>nextIndex = 3, assigned = [''a'' \<mapsto> 2]\<rparr>,
      [(''id'', JStr ''a''), (''index'', JNum 2)], True)
   \<and> parseInt (CHR 0xC2 # CHR 0xA0 # '' -27px'') = Finite (- 27)
   \<and> parseInt ''x'' = NaN
   \<and> ensureToolCallIndex initialChoiceState [(''index'', JStr ''x'')] =
      ensureToolCallIndex initialChoiceState []
   \<and> ensureToolCallIndex initialChoiceState [] =
      (\<lparr>nextIndex = 1, assigned = Map.empty\<rparr>, [(''index'', JNum 0)], True)"
  using ensureToolCallIndex_string_index
          [of "[(''id'', JStr ''a''), (''index'', JStr ''2'')]" "''2''" 2 initialChoiceState]
        ensureToolCallIndex_string_index
          [of "[(''index'', JStr ''x'')]" "''x''" 0 initialChoiceState]
  by (simp add: index_eval)

text \<open>
  The numeral of 2^53 is the string of a finite integer and is rewritten to that
  number, but the next free index afterwards is 2^53 itself, not above it: the sum
  2^53 + 1 is not a double and is rounded back. The numeral of 10^309 is the string
  of a finite integer too, and reads as \<^verbatim>\<open>Infinity\<close>: the index is discarded and the
  fragment gets the next free index, 0.
\<close>

theorem ensureToolCallIndex_string_index_counterexample:
  "decimal (2 ^ 53) = ''9007199254740992''
   \<and> parseInt ''9007199254740992'' = Finite (2 ^ 53)
   \<and> fst (snd (ensureToolCallIndex initialChoiceState
                 [(''index'', JStr ''9007199254740992'')]))
       = [(''index'', JNum (2 ^ 53))]
   \<and> nextIndex (fst (ensureToolCallIndex initialChoiceState
                      [(''index'', JStr ''9007199254740992'')]))
       = 2 ^ 53
   \<and> decimal (10 ^ 309) = CHR ''1'' # replicate 309 (CHR ''0'')
   \<and> parseInt (CHR ''1'' # replicate 309 (CHR ''0'')) = PosInfinity
   \<and> ensureToolCallIndex initialChoiceState
         [(''index'', JStr (CHR ''1'' # replicate 309 (CHR ''0'')))]
       = (\<lparr>nextIndex = 1, assigned = Map.empty\<rparr>, [(''index'', JNum 0)], True)"
proof -
  have d: "decimal (2 ^ 53) = ''9007199254740992''"
    by (simp add: decimal_def decimalNat.simps digit_chars)
  have p: "parseInt ''9007199254740992'' = Finite (2 ^ 53)"
    by (simp add: index_eval bitLength.simps)
  have c: "convertIndex [(''index'', JStr ''9007199254740992'')] = (Some (2 ^ 53), True)"
    by (simp add: convertIndex_def p)
  have e: "ensureToolCallIndex initialChoiceState [(''index'', JStr ''9007199254740992'')]
      = (\<lparr>nextIndex = 2 ^ 53, assigned = Map.empty\<rparr>, [(''index'', JNum (2 ^ 53))], True)"
    using roundInt_2_53_1
    by (simp add: ensureToolCallIndex_def c getToolCallKey_def setAssigned_def
        nonEmptyString_def initialChoiceState_def)
  define long where "long = CHR ''1'' # replicate 309 (CHR ''0'')"
  have "decimalNat (10 ^ 309) = long"
    unfolding long_def by (rule decimalNat_power10)
  then have d': "decimal (10 ^ 309) = long"
    by (simp add: decimal_def nat_power_eq)
  have "(2::int) ^ 1024 \<le> 10 ^ 309" by simp
  then have "toNumber (10 ^ 309) = PosInfinity" by (rule toNumber_overflow)
  then have p': "parseInt long = PosInfinity"
    using parseInt_decimal [of "10 ^ 309"] by (simp only: d')
  then have c': "convertIndex [(''index'', JStr long)] = (None, False)"
    by (simp add: convertIndex_def)
  have e': "ensureToolCallIndex initialChoiceState [(''index'', JStr long)]
      = (\<lparr>nextIndex = 1, assigned = Map.empty\<rparr>, [(''index'', JNum 0)], True)"
    by (simp add: ensureToolCallIndex_def c' getToolCallKey_def setAssigned_def
        nonEmptyString_def initialChoiceState_def roundInt_def roundNat_def)
  show ?thesis
    unfolding long_def [symmetric] by (simp only: d p e d' p' e' fst_conv snd_conv
      ChoiceIndexState.simps simp_thms)
qed















lemma patchCalls_append:
  "patchCalls state (xs @ ys) =
     (case patchCalls state xs of
        (state1, xs', m1) \<Rightarrow>
          (case patchCalls state1 ys of
             (state2, ys', m2) \<Rightarrow> (state2, xs' @ ys', m1 \<or> m2)))"
  by (induction state xs rule: patchCalls.induct) (auto split: prod.splits)






section \<open>Properties of the stream\<close>

lemma safeGet_field [simp]: "safeGet (JObj kvs) [k] = map_of kvs k"
  by (simp split: option.splits)

lemma safeGet_field2 [simp]:
  "safeGet (JObj kvs) [k, k'] = (case map_of kvs k of Some (JObj d) \<Rightarrow> map_of d k' | _ \<Rightarrow> None)"
  by (simp split: option.splits json.splits)

lemma scanChoices_step:
  "scanChoices (choice # choices) hv =
     (if hasDelta choice
      then (if deltaHasContent choice then (True, False) else scanChoices choices True)
      else scanChoices choices hv)"
proof (cases choice)
  case (JObj c)
  show ?thesis
  proof (cases "map_of c ''delta''")
    case None
    then show ?thesis by (simp add: JObj hasDelta_def del: safeGet.simps)
  next
    case (Some d)
    then show ?thesis
      by (cases d) (simp_all add: JObj hasDelta_def deltaHasContent_def del: safeGet.simps)
  qed
qed (simp_all add: hasDelta_def)

lemma scanChoices_spec:
  "scanChoices choices hv =
     (if list_ex (\<lambda>c. hasDelta c \<and> deltaHasContent c) choices
      then (True, False)
      else (hv \<or> list_ex hasDelta choices, True))"
proof (induction choices arbitrary: hv)
  case Nil
  show ?case by simp
next
  case (Cons c cs)
  show ?case unfolding scanChoices_step by (simp add: Cons.IH)
qed

lemma shouldFilterEmptyChunk_spec: "shouldFilterEmptyChunk choices = allDeltasEmpty choices"
  by (auto simp: shouldFilterEmptyChunk_def scanChoices_spec allDeltasEmpty_def
      list_ex_iff list_all_iff)


lemma patchChoice_saw:
  "sawToolCallsFinish state \<Longrightarrow> sawToolCallsFinish (fst (snd (patchChoice state choice)))"
  by (simp add: patchChoice_def Let_def split: option.splits json.splits prod.splits)

lemma patchChoice_latches:
  "isPlainObject (Some choice) \<Longrightarrow> safeGet choice [''finish_reason''] = Some (JStr ''tool_calls'')
     \<Longrightarrow> sawToolCallsFinish (fst (snd (patchChoice state choice)))"
  by (simp add: patchChoice_def Let_def split: option.splits json.splits prod.splits)

lemma patchToolCallIndices_saw:
  "sawToolCallsFinish state \<Longrightarrow> sawToolCallsFinish (fst (snd (patchToolCallIndices choices state)))"
proof (induction choices arbitrary: state)
  case Nil
  then show ?case by simp
next
  case (Cons c cs)
  obtain c' st1 m where p: "patchChoice state c = (c', st1, m)" by (cases "patchChoice state c")
  obtain cs' st2 m2 where q: "patchToolCallIndices cs st1 = (cs', st2, m2)"
    by (cases "patchToolCallIndices cs st1")
  from patchChoice_saw [OF Cons.prems, of c] p have "sawToolCallsFinish st1" by simp
  from Cons.IH [OF this] show ?case by (simp add: p q)
qed

lemma patchToolCallIndices_latches:
  "list_ex (\<lambda>choice. isPlainObject (Some choice)
              \<and> safeGet choice [''finish_reason''] = Some (JStr ''tool_calls'')) choices
     \<Longrightarrow> sawToolCallsFinish (fst (snd (patchToolCallIndices choices state)))"
proof (induction choices arbitrary: state)
  case Nil
  then show ?case by simp
next
  case (Cons c cs)
  obtain c' st1 m where p: "patchChoice state c = (c', st1, m)" by (cases "patchChoice state c")
  obtain cs' st2 m2 where q: "patchToolCallIndices cs st1 = (cs', st2, m2)"
    by (cases "patchToolCallIndices cs st1")
  show ?case
  proof (cases "isPlainObject (Some c) \<and> safeGet c [''finish_reason''] = Some (JStr ''tool_calls'')")
    case True
    with patchChoice_latches [of c state] p have "sawToolCallsFinish st1" by simp
    from patchToolCallIndices_saw [OF this, of cs] show ?thesis by (simp add: p q)
  next
    case False
    with Cons.prems have "list_ex (\<lambda>choice. isPlainObject (Some choice)
              \<and> safeGet choice [''finish_reason''] = Some (JStr ''tool_calls'')) cs" by auto
    from Cons.IH [OF this, of st1] show ?thesis by (simp add: p q)
  qed
qed

lemma patchChunkPayload_saw:
  "sawToolCallsFinish state
     \<Longrightarrow> sawToolCallsFinish (snd (snd (patchChunkPayload rt spc config payload state)))"
  by (simp add: patchChunkPayload_def Let_def case_prod_unfold patchToolCallIndices_saw
      split: option.splits json.splits)

lemma patchChunkPayload_latches:
  assumes "assignMissingIndices spc"
    and "parse rt payload = Some json"
    and "safeGet json [''choices''] = Some (JArr choices)"
    and "list_ex (\<lambda>choice. isPlainObject (Some choice)
              \<and> safeGet choice [''finish_reason''] = Some (JStr ''tool_calls'')) choices"
  shows "sawToolCallsFinish (snd (snd (patchChunkPayload rt spc config payload state)))"
proof -
  have ne: "choices \<noteq> []" using assms(4) by auto
  show ?thesis
    using assms(1-3) ne
    by (simp add: patchChunkPayload_def Let_def case_prod_unfold
        patchToolCallIndices_latches [OF assms(4)] split: option.splits)
qed

lemma transformEvent_saw:
  "sawToolCallsFinish state
     \<Longrightarrow> sawToolCallsFinish (snd (transformEvent rt spc config event state))"
  by (simp add: transformEvent_def Let_def case_prod_unfold patchChunkPayload_saw
      split: option.splits)

lemma lines_chars: "line \<in> set (splitLines s) \<Longrightarrow> set line \<subseteq> set s"
proof (induction s arbitrary: line)
  case Nil
  then show ?case by simp
next
  case (Cons a s)
  show ?case
  proof (cases "a = LF")
    case True
    with Cons show ?thesis by auto
  next
    case False
    obtain l ls where sp: "splitLines s = l # ls"
      by (cases "splitLines s") (cases s; simp split: if_splits list.splits)+
    from Cons.prems False sp have "line = a # l \<or> line \<in> set ls" by simp
    then show ?thesis
    proof
      assume "line = a # l"
      moreover have "set l \<subseteq> set s" using Cons.IH [of l] sp by simp
      ultimately show ?thesis by auto
    next
      assume "line \<in> set ls"
      then have "set line \<subseteq> set s" using Cons.IH [of line] sp by simp
      then show ?thesis by auto
    qed
  qed
qed

lemma payload_not_blank: "payloadOf event \<noteq> [] \<Longrightarrow> \<not> isBlank event"
proof
  assume p: "payloadOf event \<noteq> []" and b: "isBlank event"
  from p have "filter isDataLine (splitLines event) \<noteq> []"
    by (auto simp: payloadOf_def)
  then obtain line where l: "line \<in> set (splitLines event)" "isDataLine line"
    by (metis filter_False)
  from l(2) have "CHR ''d'' \<in> set (take 5 line)" by (simp add: isDataLine_def)
  then have "CHR ''d'' \<in> set line" by (rule in_set_takeD)
  with lines_chars [OF l(1)] have "CHR ''d'' \<in> set event" by auto
  with b have "isWhiteSpace CHR ''d''" by (auto simp: isBlank_def list_all_iff)
  then show False by (simp add: isWhiteSpace_def)
qed

lemma transformEvent_latches:
  assumes "assignMissingIndices spc" and "carriesToolCallsFinish rt event"
  shows "sawToolCallsFinish (snd (transformEvent rt spc config event state))"
proof -
  from assms(2) obtain json choices where
    p: "payloadOf event \<noteq> []" "payloadOf event \<noteq> ''[DONE]''"
      "parse rt (payloadOf event) = Some json"
      "safeGet json [''choices''] = Some (JArr choices)"
      "list_ex (\<lambda>choice. isPlainObject (Some choice)
              \<and> safeGet choice [''finish_reason''] = Some (JStr ''tool_calls'')) choices"
    by (auto simp: carriesToolCallsFinish_def eventJson_def split: option.splits json.splits if_splits)
  have nb: "\<not> isBlank event" using p(1) by (rule payload_not_blank)
  have dl: "filter isDataLine (splitLines event) \<noteq> []" using p(1) by (auto simp: payloadOf_def)
  show ?thesis
    using nb dl p(1,2)
    by (simp add: transformEvent_def Let_def case_prod_unfold payloadOf_def [symmetric]
        patchChunkPayload_latches [OF assms(1) p(3) p(4) p(5)] split: option.splits)
qed

declare drainBuffer.simps [simp del] cutAll.simps [simp del]

lemma drainBuffer_runEvents:
  "fst (snd (drainBuffer rt spc config buffer state)) = runEvents rt spc config (cutAll buffer) state"
proof (induction rt spc config buffer state rule: drainBuffer.induct)
  case (1 rt spc config buffer state)
  show ?case
  proof (cases "cutEvent buffer")
    case None
    then show ?thesis
      by (subst drainBuffer.simps, subst cutAll.simps) simp
  next
    case (Some er)
    obtain event rest where er: "er = (event, rest)" by (cases er)
    obtain t st1 where te: "transformEvent rt spc config event state = (t, st1)"
      by (cases "transformEvent rt spc config event state")
    from 1 [OF Some [unfolded er] refl te [symmetric]]
    have ih: "fst (snd (drainBuffer rt spc config rest st1))
            = runEvents rt spc config (cutAll rest) st1" .
    have "drainBuffer rt spc config buffer state =
            (case drainBuffer rt spc config rest st1 of
               (buffer', state2, out) \<Rightarrow> (buffer', state2, enqueued t @ out))"
      by (subst drainBuffer.simps) (simp add: Some er te)
    moreover have "cutAll buffer = event # cutAll rest"
      by (subst cutAll.simps) (simp add: Some er)
    ultimately show ?thesis
      using ih te by (simp add: case_prod_unfold)
  qed
qed

lemma runEvents_saw:
  "sawToolCallsFinish state \<Longrightarrow> sawToolCallsFinish (runEvents rt spc config events state)"
  by (induction events arbitrary: state) (simp_all add: transformEvent_saw)

lemma runEvents_latches:
  assumes "assignMissingIndices spc" and "e \<in> set events" and "carriesToolCallsFinish rt e"
  shows "sawToolCallsFinish (runEvents rt spc config events state)"
  using assms(2)
proof (induction events arbitrary: state)
  case Nil
  then show ?case by simp
next
  case (Cons a es)
  show ?case
  proof (cases "a = e")
    case True
    then show ?thesis
      using transformEvent_latches [OF assms(1) assms(3)] by (simp add: runEvents_saw)
  next
    case False
    with Cons show ?thesis by simp
  qed
qed


lemma patchChoice_unchanged:
  assumes "hasDelta choice \<longrightarrow> \<not> deltaHasContent choice"
  shows "fst (patchChoice state choice) = choice \<and> \<not> snd (snd (patchChoice state choice))"
proof (cases choice)
  case (JObj c)
  show ?thesis
  proof (cases "map_of c ''delta''")
    case None
    then show ?thesis by (simp add: JObj patchChoice_def Let_def del: safeGet.simps)
  next
    case (Some d)
    show ?thesis
    proof (cases d)
      case (JObj dd)
      with assms Some \<open>choice = JObj c\<close> have "\<not> isValidArray (map_of dd ''tool_calls'')"
        by (simp add: hasDelta_def deltaHasContent_def del: safeGet.simps)
      then show ?thesis
        using Some JObj \<open>choice = JObj c\<close>
        by (cases "map_of dd ''tool_calls''")
           (auto simp: patchChoice_def Let_def simp del: safeGet.simps split: json.splits)
    qed (simp_all add: \<open>choice = JObj c\<close> Some patchChoice_def Let_def del: safeGet.simps)
  qed
qed (simp_all add: patchChoice_def)

lemma patchToolCallIndices_unchanged:
  assumes "list_all (\<lambda>choice. hasDelta choice \<longrightarrow> \<not> deltaHasContent choice) choices"
  shows "fst (patchToolCallIndices choices state) = choices
         \<and> \<not> snd (snd (patchToolCallIndices choices state))"
  using assms
proof (induction choices arbitrary: state)
  case Nil
  show ?case by simp
next
  case (Cons c cs)
  then have c: "hasDelta c \<longrightarrow> \<not> deltaHasContent c"
    and cs: "list_all (\<lambda>choice. hasDelta choice \<longrightarrow> \<not> deltaHasContent choice) cs" by simp_all
  show ?case
    using patchChoice_unchanged [OF c, of state] Cons.IH [OF cs]
    by (simp add: case_prod_unfold)
qed

lemma eventJson_payload:
  assumes "eventJson rt event = Some json"
  shows "payloadOf event \<noteq> []" "payloadOf event \<noteq> ''[DONE]''"
    "parse rt (payloadOf event) = Some json" "\<not> isBlank event"
    "filter isDataLine (splitLines event) \<noteq> []"
proof -
  show p: "payloadOf event \<noteq> []" and "payloadOf event \<noteq> ''[DONE]''"
    and "parse rt (payloadOf event) = Some json"
    using assms by (auto simp: eventJson_def split: if_splits)
  show "\<not> isBlank event" using p by (rule payload_not_blank)
  show "filter isDataLine (splitLines event) \<noteq> []" using p by (auto simp: payloadOf_def)
qed

lemma transformEvent_drops:
  assumes "filterEmptyChunksAfterToolCalls spc" and "sawToolCallsFinish state"
    and "eventJson rt event = Some json" and "safeGet json [''choices''] = Some (JArr choices)"
    and "allDeltasEmpty choices"
  shows "fst (transformEvent rt spc config event state) = None"
proof -
  note e = eventJson_payload [OF assms(3)]
  have ne: "choices \<noteq> []" using assms(5) by (auto simp: allDeltasEmpty_def)
  have f: "shouldFilterEmptyChunk choices" using assms(5) by (simp add: shouldFilterEmptyChunk_spec)
  have "patchChunkPayload rt spc config (payloadOf event)
          (state\<lparr>chunkCount := chunkCount state + 1\<rparr>)
        = (None, True,
           if handleThoughtSignature config
           then (case extractThoughtSignature choices of
                   Some sig \<Rightarrow> state\<lparr>chunkCount := chunkCount state + 1, thoughtSignature := Some sig\<rparr>
                 | None \<Rightarrow> state\<lparr>chunkCount := chunkCount state + 1\<rparr>)
           else state\<lparr>chunkCount := chunkCount state + 1\<rparr>)"
    using assms(1,2,4) e(3) ne f
    by (simp add: patchChunkPayload_def Let_def split: option.splits)
  then show ?thesis
    using e by (simp add: transformEvent_def Let_def payloadOf_def [symmetric])
qed

lemma transformEvent_keeps:
  assumes "\<not> filterEmptyChunksAfterToolCalls spc"
    and "eventJson rt event = Some json" and "safeGet json [''choices''] = Some (JArr choices)"
    and "allDeltasEmpty choices"
  shows "fst (transformEvent rt spc config event state) = Some event"
proof -
  note e = eventJson_payload [OF assms(2)]
  have u: "\<And>st. \<not> snd (snd (patchToolCallIndices choices st))"
    using patchToolCallIndices_unchanged assms(4) by (simp add: allDeltasEmpty_def)
  have "fst (patchChunkPayload rt spc config (payloadOf event)
          (state\<lparr>chunkCount := chunkCount state + 1\<rparr>)) = None
      \<and> \<not> fst (snd (patchChunkPayload rt spc config (payloadOf event)
          (state\<lparr>chunkCount := chunkCount state + 1\<rparr>)))"
    using assms(1,3) e(3) u
    by (simp add: patchChunkPayload_def Let_def case_prod_unfold split: option.splits)
  then show ?thesis
    using e by (simp add: transformEvent_def Let_def case_prod_unfold payloadOf_def [symmetric])
qed

text \<open>
  Claim C6. Take an event that arrives after an earlier event of the stream carried
  \<^verbatim>\<open>finish_reason: "tool_calls"\<close> on a choice, and whose own choices are all empty:
  no choice with a delta object has a non-empty content string or tool-call array, and
  some choice has a delta object. With empty-chunk filtering enabled it is dropped;
  with filtering disabled it is passed through unchanged. (Indices are being assigned,
  as the module constant has it: that pass is where the finish reason is noticed.)
\<close>

theorem empty_event_after_tool_calls_finish:
  assumes "assignMissingIndices spc"
    and "e0 \<in> set earlier" and "carriesToolCallsFinish rt e0"
    and "eventJson rt event = Some json" and "safeGet json [''choices''] = Some (JArr choices)"
    and "allDeltasEmpty choices"
  shows "(filterEmptyChunksAfterToolCalls spc \<longrightarrow>
            fst (transformEvent rt spc config event
                   (runEvents rt spc config earlier initialStreamState)) = None)
       \<and> (\<not> filterEmptyChunksAfterToolCalls spc \<longrightarrow>
            fst (transformEvent rt spc config event
                   (runEvents rt spc config earlier initialStreamState)) = Some event)"
proof (intro conjI impI)
  assume f: "filterEmptyChunksAfterToolCalls spc"
  have "sawToolCallsFinish (runEvents rt spc config earlier initialStreamState)"
    using assms(1-3) by (rule runEvents_latches)
  with f show "fst (transformEvent rt spc config event
                   (runEvents rt spc config earlier initialStreamState)) = None"
    using assms(4-6) by (rule transformEvent_drops)
next
  assume "\<not> filterEmptyChunksAfterToolCalls spc"
  then show "fst (transformEvent rt spc config event
                   (runEvents rt spc config earlier initialStreamState)) = Some event"
    using assms(4-6) by (rule transformEvent_keeps)
qed

text \<open>
  Claim C9. An event whose payload is JSON with an empty \<^verbatim>\<open>choices\<close> array comes
  back as it came, whatever the two configurations say; of the stream state only the
  event counter moves.
\<close>

theorem transformEvent_no_choices:
  assumes "parse rt (payloadOf event) = Some json"
    and "safeGet json [''choices''] = Some (JArr [])"
  shows "transformEvent rt spc config event state =
           (Some event,
            state\<lparr>chunkCount := chunkCount state + (if isBlank event then 0 else 1)\<rparr>)"
  using assms
  by (simp add: transformEvent_def patchChunkPayload_def payloadOf_def Let_def del: safeGet.simps)

theorem transformEvent_no_choices_witness:
  "parse streamRuntime (payloadOf (''data: '' @ noChoicesText)) = Some noChoicesJson
   \<and> safeGet noChoicesJson [''choices''] = Some (JArr [])
   \<and> transformEvent streamRuntime
        \<lparr>filterEmptyChunksAfterToolCalls = True, assignMissingIndices = True\<rparr>
        \<lparr>handleThoughtSignature = True\<rparr> (''data: '' @ noChoicesText) initialStreamState
       = (Some (''data: '' @ noChoicesText), initialStreamState\<lparr>chunkCount := 1\<rparr>)"
proof -
  have p: "parse streamRuntime (payloadOf (''data: '' @ noChoicesText)) = Some noChoicesJson"
    by code_simp
  have c: "safeGet noChoicesJson [''choices''] = Some (JArr [])"
    by code_simp
  have b: "\<not> isBlank (''data: '' @ noChoicesText)"
    by code_simp
  show ?thesis
    using transformEvent_no_choices [OF p c,
        of "\<lparr>filterEmptyChunksAfterToolCalls = True, assignMissingIndices = True\<rparr>"
           "\<lparr>handleThoughtSignature = True\<rparr>" initialStreamState] p c b
    by (simp add: initialStreamState_def)
qed

theorem empty_event_after_tool_calls_finish_witness:
  "carriesToolCallsFinish streamRuntime (''data: '' @ finishText)
   \<and> eventJson streamRuntime (''data: '' @ emptyDeltaText) = Some emptyDeltaJson
   \<and> allDeltasEmpty [JObj [(''index'', JNum 0), (''delta'', JObj [])]]
   \<and> fst (transformEvent streamRuntime
        \<lparr>filterEmptyChunksAfterToolCalls = True, assignMissingIndices = True\<rparr>
        \<lparr>handleThoughtSignature = False\<rparr> (''data: '' @ emptyDeltaText)
        (runEvents streamRuntime
           \<lparr>filterEmptyChunksAfterToolCalls = True, assignMissingIndices = True\<rparr>
           \<lparr>handleThoughtSignature = False\<rparr> [''data: '' @ finishText] initialStreamState))
       = None
   \<and> fst (transformEvent streamRuntime streamPatchConfig
        \<lparr>handleThoughtSignature = False\<rparr> (''data: '' @ emptyDeltaText)
        (runEvents streamRuntime streamPatchConfig
           \<lparr>handleThoughtSignature = False\<rparr> [''data: '' @ finishText] initialStreamState))
       = Some (''data: '' @ emptyDeltaText)"
proof -
  have c: "carriesToolCallsFinish streamRuntime (''data: '' @ finishText)"
    by code_simp
  have e: "eventJson streamRuntime (''data: '' @ emptyDeltaText) = Some emptyDeltaJson"
    by code_simp
  have s: "safeGet emptyDeltaJson [''choices'']
             = Some (JArr [JObj [(''index'', JNum 0), (''delta'', JObj [])]])"
    by code_simp
  have a: "allDeltasEmpty [JObj [(''index'', JNum 0), (''delta'', JObj [])]]"
    by code_simp
  have m: "''data: '' @ finishText \<in> set [''data: '' @ finishText]" by simp
  have on: "assignMissingIndices \<lparr>filterEmptyChunksAfterToolCalls = True, assignMissingIndices = True\<rparr>"
    and off: "assignMissingIndices streamPatchConfig"
    by (simp_all add: streamPatchConfig_def)
  show ?thesis
    using empty_event_after_tool_calls_finish [OF on m c e s a, of "\<lparr>handleThoughtSignature = False\<rparr>"]
      empty_event_after_tool_calls_finish [OF off m c e s a, of "\<lparr>handleThoughtSignature = False\<rparr>"]
      c e a
    by (simp add: streamPatchConfig_def)
qed

text \<open>
  Claim C5, at a stream that ends without a blank line after its only event. The
  event is flushed and its signature reaches the stream state, but the shared state
  was written before the flush and stays empty. The same event followed by a blank
  line is handed off.
\<close>

theorem trailing_signature_not_handed_off:
  "thoughtSignature (snd (snd
     (pullAll streamRuntime streamPatchConfig \<lparr>handleThoughtSignature = True\<rparr>
        [''data: '' @ signatureText] [] initialStreamState None)))
   = Some ''sig''
   \<and> patchSseStream streamRuntime streamPatchConfig \<lparr>handleThoughtSignature = True\<rparr>
     [''data: '' @ signatureText] None
   = ([''data: '' @ signatureText @ [LF, LF]], None)
   \<and> patchSseStream streamRuntime streamPatchConfig \<lparr>handleThoughtSignature = True\<rparr>
     [''data: '' @ signatureText @ [LF, LF]] None
   = ([''data: '' @ signatureText @ [LF, LF]], Some ''sig'')"
  by code_simp

text \<open>
  Claim C10. A CR LF pair inside one chunk is rewritten. When the chunk boundary falls
  between the CR and the LF the pair is not rewritten: the carriage return stays in
  the event that is emitted, and a blank line cut this way is not seen as the end of
  an event, so two events leave as one.
\<close>

theorem split_line_ending_not_normalized:
  "patchSseStream streamRuntime streamPatchConfig \<lparr>handleThoughtSignature = False\<rparr>
     [''data: '' @ noChoicesText @ [CR, LF, CR, LF]] None
   = ([''data: '' @ noChoicesText @ [LF, LF]], None)
   \<and> patchSseStream streamRuntime streamPatchConfig \<lparr>handleThoughtSignature = False\<rparr>
     [''data: '' @ noChoicesText @ [CR], [LF, CR, LF]] None
   = ([''data: '' @ noChoicesText @ [CR, LF, LF]], None)
   \<and> patchSseStream streamRuntime streamPatchConfig \<lparr>handleThoughtSignature = False\<rparr>
     [''data: '' @ noChoicesText @ [CR, LF, CR], LF # ''data: '' @ noChoicesText @ [CR, LF, CR, LF]] None
   = ([''data: '' @ noChoicesText @ [LF, CR, LF] @ ''data: '' @ noChoicesText @ [LF, LF]], None)"
  by code_simp

section \<open>Properties of the request functions\<close>

lemma isValidArray_cases:
  "isValidArray v = (\<exists>x xs. v = Some (JArr (x # xs)))"
  by (cases v rule: isValidArray.cases) (auto simp: neq_Nil_conv)

text \<open>
  Claim C8. \<^verbatim>\<open>transformRequestBody\<close> returns the body it was given when the body does
  not parse and when the parsed body has no non-empty \<^verbatim>\<open>tools\<close> array. Whatever is
  raised inside it (by the parser, by a transform function, by the debug validation)
  ends in the body being returned, so nothing is raised past it; otherwise the
  result is the serialization of the body with its tools transformed.
\<close>

theorem transformRequestBody_falls_back:
  "(parse rt body = None \<longrightarrow> transformRequestBody rt options body = body)
   \<and> (\<forall>json. parse rt body = Some json \<longrightarrow> \<not> isValidArray (safeGet json [''tools''])
         \<longrightarrow> transformRequestBody rt options body = body)
   \<and> (\<forall>e. transformRequestBodyTry rt options body = Inl e
         \<longrightarrow> transformRequestBody rt options body = body)
   \<and> (\<forall>json tools. parse rt body = Some json
         \<longrightarrow> safeGet json [''tools''] = Some (JArr tools) \<longrightarrow> tools \<noteq> []
         \<longrightarrow> transformRequestBody rt options body = body
             \<or> (\<exists>tools'. transformJsonSchema options (JArr tools) = Inr tools'
                   \<and> transformRequestBody rt options body
                       = stringify rt (setField json ''tools'' tools')))"
proof (intro conjI allI impI)
  assume "parse rt body = None"
  then show "transformRequestBody rt options body = body"
    by (simp add: transformRequestBody_def transformRequestBodyTry_def)
next
  fix json
  assume "parse rt body = Some json" and "\<not> isValidArray (safeGet json [''tools''])"
  then show "transformRequestBody rt options body = body"
    by (cases "safeGet json [''tools'']" rule: isValidArray.cases)
       (simp_all add: transformRequestBody_def transformRequestBodyTry_def del: safeGet.simps)
next
  fix e
  assume "transformRequestBodyTry rt options body = Inl e"
  then show "transformRequestBody rt options body = body"
    by (simp add: transformRequestBody_def)
next
  fix json tools
  assume "parse rt body = Some json" and "safeGet json [''tools''] = Some (JArr tools)"
    and "tools \<noteq> []"
  then show "transformRequestBody rt options body = body
             \<or> (\<exists>tools'. transformJsonSchema options (JArr tools) = Inr tools'
                   \<and> transformRequestBody rt options body
                       = stringify rt (setField json ''tools'' tools'))"
    by (auto simp: transformRequestBody_def transformRequestBodyTry_def Let_def
        simp del: safeGet.simps transformJsonSchema.simps split: sum.splits option.splits)
qed


theorem transformRequestBody_falls_back_witness:
  "parse requestRuntime ''{oops'' = None
   \<and> transformRequestBody requestRuntime (defaultOptions Map.empty) ''{oops'' = ''{oops''
   \<and> parse requestRuntime noToolsText = Some noToolsJson
   \<and> \<not> isValidArray (safeGet noToolsJson [''tools''])
   \<and> transformRequestBody requestRuntime (defaultOptions Map.empty) noToolsText = noToolsText
   \<and> transformRequestBodyTry requestRuntime raisingOptions toolsText = Inl (Thrown ''boom'')
   \<and> transformRequestBody requestRuntime raisingOptions toolsText = toolsText
   \<and> transformRequestBody requestRuntime (defaultOptions Map.empty) toolsText = toolsOutText"
proof -
  have a: "parse requestRuntime ''{oops'' = None" by code_simp
  have b: "parse requestRuntime noToolsText = Some noToolsJson" by code_simp
  have c: "\<not> isValidArray (safeGet noToolsJson [''tools''])" by code_simp
  have d: "transformRequestBodyTry requestRuntime raisingOptions toolsText = Inl (Thrown ''boom'')"
    by code_simp
  have e: "transformRequestBody requestRuntime (defaultOptions Map.empty) toolsText = toolsOutText"
    by code_simp
  show ?thesis
    using transformRequestBody_falls_back [of requestRuntime "''{oops''" "defaultOptions Map.empty"]
      transformRequestBody_falls_back [of requestRuntime noToolsText "defaultOptions Map.empty"]
      transformRequestBody_falls_back [of requestRuntime toolsText raisingOptions]
      a b c d e
    by simp
qed

lemma searchBackwards_None: "(searchBackwards ms n = None) = (\<forall>j<n. \<not> isTargetMessage (ms ! j))"
  by (induction n) (auto simp: less_Suc_eq)

lemma searchBackwards_Some:
  "(searchBackwards ms n = Some i)
     = (i < n \<and> isTargetMessage (ms ! i) \<and> (\<forall>j. i < j \<and> j < n \<longrightarrow> \<not> isTargetMessage (ms ! j)))"
proof (induction n)
  case 0
  show ?case by simp
next
  case (Suc n)
  show ?case
  proof (cases "isTargetMessage (ms ! n)")
    case True
    then show ?thesis
      by (auto simp: less_Suc_eq)
  next
    case False
    then show ?thesis
      using Suc by (auto simp: less_Suc_eq)
  qed
qed

lemma safeGet_field3 [simp]:
  "safeGet (JObj kvs) [k, k', k''] =
     (case map_of kvs k of
        Some (JObj d) \<Rightarrow> (case map_of d k' of Some (JObj g) \<Rightarrow> map_of g k'' | _ \<Rightarrow> None)
      | _ \<Rightarrow> None)"
  by (simp split: option.splits json.splits)

lemma writeSignature_writes:
  assumes "signatureWritable firstCall"
  shows "\<exists>firstCall'.
           writeSignature firstCall sig = Inr firstCall'
         \<and> safeGet (JObj firstCall') [''extra_content'', ''google'', ''thought_signature'']
             = Some (JStr sig)
         \<and> (\<forall>k. k \<noteq> ''extra_content'' \<longrightarrow> map_of firstCall' k = map_of firstCall k)
         \<and> (\<forall>k. k \<noteq> ''google'' \<longrightarrow>
               safeGet (JObj firstCall') [''extra_content'', k]
                 = safeGet (JObj firstCall) [''extra_content'', k])
         \<and> (\<forall>k. k \<noteq> ''thought_signature'' \<longrightarrow>
               safeGet (JObj firstCall') [''extra_content'', ''google'', k]
                 = safeGet (JObj firstCall) [''extra_content'', ''google'', k])"
proof (cases "truthy (map_of firstCall ''extra_content'')")
  case False
  then have w: "writeSignature firstCall sig =
      Inr (AList.update ''extra_content''
             (JObj [(''google'', JObj [(''thought_signature'', JStr sig)])])
             firstCall)"
    by (simp add: writeSignature_def Let_def update_conv')
  from False have n: "\<And>k. (case map_of firstCall ''extra_content'' of
        Some (JObj d) \<Rightarrow> map_of d k | _ \<Rightarrow> None) = None"
    "\<And>k k'. (case map_of firstCall ''extra_content'' of
        Some (JObj d) \<Rightarrow> (case map_of d k of Some (JObj g) \<Rightarrow> map_of g k' | _ \<Rightarrow> None)
       | _ \<Rightarrow> None) = None"
    by (auto split: option.splits json.splits)
  show ?thesis
    by (rule exI [of _ "AList.update ''extra_content''
             (JObj [(''google'', JObj [(''thought_signature'', JStr sig)])]) firstCall"])
       (simp add: w update_conv' n del: safeGet.simps)
next
  case True
  with assms obtain e where e: "map_of firstCall ''extra_content'' = Some (JObj e)"
    and g: "writableContainer (map_of e ''google'')"
    by (auto simp: signatureWritable_def writableContainer_def
        elim!: isPlainObject.elims(2) simp del: safeGet.simps)
  show ?thesis
  proof (cases "truthy (map_of e ''google'')")
    case False
    then have w: "writeSignature firstCall sig =
      Inr (AList.update ''extra_content''
             (JObj (AList.update ''google'' (JObj [(''thought_signature'', JStr sig)]) e))
             firstCall)"
      using e by (simp add: writeSignature_def Let_def update_conv')
    from False have n: "\<And>k. (case map_of e ''google'' of Some (JObj g) \<Rightarrow> map_of g k | _ \<Rightarrow> None) = None"
      by (auto split: option.splits json.splits)
    show ?thesis
      by (rule exI [of _ "AList.update ''extra_content''
             (JObj (AList.update ''google'' (JObj [(''thought_signature'', JStr sig)]) e))
             firstCall"])
         (simp add: w update_conv' e n del: safeGet.simps)
  next
    case True
    with g obtain gg where gg: "map_of e ''google'' = Some (JObj gg)"
      by (auto simp: writableContainer_def elim!: isPlainObject.elims(2))
    have w: "writeSignature firstCall sig =
      Inr (AList.update ''extra_content''
             (JObj (AList.update ''google''
                (JObj (AList.update ''thought_signature'' (JStr sig) gg)) e))
             firstCall)"
      using e gg by (simp add: writeSignature_def Let_def update_conv')
    show ?thesis
      by (rule exI [of _ "AList.update ''extra_content''
             (JObj (AList.update ''google''
                (JObj (AList.update ''thought_signature'' (JStr sig) gg)) e))
             firstCall"])
         (simp add: w update_conv' e gg del: safeGet.simps)
  qed
qed

lemma writeSignature_blocked:
  assumes "signatureBlocked firstCall"
  shows "writeSignature firstCall sig = Inl TypeError"
proof (cases "map_of firstCall ''extra_content''")
  case None
  with assms show ?thesis by (simp add: signatureBlocked_def primitiveContainer_def)
next
  case (Some v)
  show ?thesis
  proof (cases v)
    case (JObj e)
    with assms Some have p: "primitiveContainer (map_of e ''google'')"
      by (simp add: signatureBlocked_def primitiveContainer_def del: safeGet.simps)
    then obtain x where x: "map_of e ''google'' = Some x" "truthy (Some x)" "\<not> isObjectValue x"
      by (auto simp: primitiveContainer_def split: option.splits)
    then show ?thesis
      using Some JObj by (cases x) (simp_all add: writeSignature_def Let_def)
  qed (use assms Some in \<open>auto simp: signatureBlocked_def primitiveContainer_def
         writeSignature_def Let_def\<close>)
qed


lemma injectThoughtSignature_at_target:
  assumes "parse rt body = Some json" and "safeGet json [''messages''] = Some (JArr messages)"
    and "lastTargetMessage messages i" and "messages ! i = JObj message"
    and "map_of message ''tool_calls'' = Some (JArr (first # others))"
  shows "injectThoughtSignatureTry rt body sig =
           (case first of
              JObj firstCall \<Rightarrow>
                (case writeSignature firstCall sig of
                   Inl e \<Rightarrow> Inl e
                 | Inr firstCall' \<Rightarrow>
                     Inr (stringify rt
                       (setField json ''messages''
                          (JArr (messages[i :=
                             JObj (AList.update ''tool_calls''
                                    (JArr (JObj firstCall' # others)) message)])))))
            | _ \<Rightarrow> Inr body)"
proof -
  from assms(3) have s: "searchBackwards messages (length messages) = Some i"
    by (simp add: searchBackwards_Some lastTargetMessage_def)
  from assms(3) have ne: "messages \<noteq> []" by (auto simp: lastTargetMessage_def)
  show ?thesis
    using assms(1,2,4,5) s ne
    by (cases first) (simp_all add: injectThoughtSignatureTry_def del: safeGet.simps)
qed

text \<open>
  Claim C2, as the code keeps it. The body comes back unchanged when it does not
  parse, when it has no non-empty \<^verbatim>\<open>messages\<close> array, when no message is an assistant
  message with a non-empty \<^verbatim>\<open>tool_calls\<close> array, when the first tool call of the last
  such message is not a plain object, and when \<^verbatim>\<open>extra_content\<close> or the
  \<^verbatim>\<open>google\<close> in it is a truthy string, number or boolean. When both containers are
  missing, falsy or plain objects, the result is the serialization of the body in
  which only that message changed, only its first tool call, and in it only
  \<^verbatim>\<open>extra_content.google.thought_signature\<close>, which holds the signature.
\<close>

theorem injectThoughtSignature_first_call:
  "(parse rt body = None \<longrightarrow> injectThoughtSignature rt body sig = body)
   \<and> (\<forall>json. parse rt body = Some json \<longrightarrow> \<not> isValidArray (safeGet json [''messages''])
         \<longrightarrow> injectThoughtSignature rt body sig = body)
   \<and> (\<forall>json messages. parse rt body = Some json
         \<longrightarrow> safeGet json [''messages''] = Some (JArr messages)
         \<longrightarrow> list_all (\<lambda>m. \<not> isTargetMessage m) messages
         \<longrightarrow> injectThoughtSignature rt body sig = body)
   \<and> (\<forall>json messages i message first others.
         parse rt body = Some json
         \<longrightarrow> safeGet json [''messages''] = Some (JArr messages)
         \<longrightarrow> lastTargetMessage messages i
         \<longrightarrow> messages ! i = JObj message
         \<longrightarrow> map_of message ''tool_calls'' = Some (JArr (first # others))
         \<longrightarrow> (\<not> isPlainObject (Some first) \<longrightarrow> injectThoughtSignature rt body sig = body)
           \<and> (\<forall>firstCall. first = JObj firstCall \<longrightarrow> signatureBlocked firstCall
                 \<longrightarrow> injectThoughtSignature rt body sig = body)
           \<and> (\<forall>firstCall. first = JObj firstCall \<longrightarrow> signatureWritable firstCall
                 \<longrightarrow> (\<exists>firstCall'.
                       injectThoughtSignature rt body sig =
                         stringify rt
                           (setField json ''messages''
                              (JArr (messages[i :=
                                 JObj (AList.update ''tool_calls''
                                        (JArr (JObj firstCall' # others)) message)])))
                     \<and> safeGet (JObj firstCall')
                           [''extra_content'', ''google'', ''thought_signature'']
                         = Some (JStr sig)
                     \<and> (\<forall>k. k \<noteq> ''extra_content'' \<longrightarrow>
                           map_of firstCall' k = map_of firstCall k)
                     \<and> (\<forall>k. k \<noteq> ''google'' \<longrightarrow>
                           safeGet (JObj firstCall') [''extra_content'', k]
                             = safeGet (JObj firstCall) [''extra_content'', k])
                     \<and> (\<forall>k. k \<noteq> ''thought_signature'' \<longrightarrow>
                           safeGet (JObj firstCall') [''extra_content'', ''google'', k]
                             = safeGet (JObj firstCall) [''extra_content'', ''google'', k]))))"
proof (intro conjI allI impI)
  assume "parse rt body = None"
  then show "injectThoughtSignature rt body sig = body"
    by (simp add: injectThoughtSignature_def injectThoughtSignatureTry_def)
next
  fix json
  assume "parse rt body = Some json" and "\<not> isValidArray (safeGet json [''messages''])"
  then show "injectThoughtSignature rt body sig = body"
    by (cases "safeGet json [''messages'']" rule: isValidArray.cases)
       (simp_all add: injectThoughtSignature_def injectThoughtSignatureTry_def del: safeGet.simps)
next
  fix json messages
  assume p: "parse rt body = Some json" "safeGet json [''messages''] = Some (JArr messages)"
    and n: "list_all (\<lambda>m. \<not> isTargetMessage m) messages"
  from n have "searchBackwards messages (length messages) = None"
    by (simp add: searchBackwards_None list_all_length)
  with p show "injectThoughtSignature rt body sig = body"
    by (simp add: injectThoughtSignature_def injectThoughtSignatureTry_def del: safeGet.simps)
next
  fix json messages i message first others
  assume a: "parse rt body = Some json" "safeGet json [''messages''] = Some (JArr messages)"
    "lastTargetMessage messages i" "messages ! i = JObj message"
    "map_of message ''tool_calls'' = Some (JArr (first # others))"
  note t = injectThoughtSignature_at_target [OF a, of sig]
  {
    assume "\<not> isPlainObject (Some first)"
    then show "injectThoughtSignature rt body sig = body"
      by (cases first) (simp_all add: injectThoughtSignature_def t)
  next
    fix firstCall
    assume f: "first = JObj firstCall" and b: "signatureBlocked firstCall"
    show "injectThoughtSignature rt body sig = body"
      by (simp add: injectThoughtSignature_def t f writeSignature_blocked [OF b])
  next
    fix firstCall
    assume f: "first = JObj firstCall" and w: "signatureWritable firstCall"
    from writeSignature_writes [OF w, of sig] obtain firstCall' where
      r: "writeSignature firstCall sig = Inr firstCall'"
      and s: "safeGet (JObj firstCall') [''extra_content'', ''google'', ''thought_signature'']
             = Some (JStr sig)"
         "\<forall>k. k \<noteq> ''extra_content'' \<longrightarrow> map_of firstCall' k = map_of firstCall k"
         "\<forall>k. k \<noteq> ''google'' \<longrightarrow>
               safeGet (JObj firstCall') [''extra_content'', k]
                 = safeGet (JObj firstCall) [''extra_content'', k]"
         "\<forall>k. k \<noteq> ''thought_signature'' \<longrightarrow>
               safeGet (JObj firstCall') [''extra_content'', ''google'', k]
                 = safeGet (JObj firstCall) [''extra_content'', ''google'', k]"
      by blast
    have "injectThoughtSignature rt body sig =
            stringify rt
              (setField json ''messages''
                 (JArr (messages[i :=
                    JObj (AList.update ''tool_calls''
                           (JArr (JObj firstCall' # others)) message)])))"
      by (simp add: injectThoughtSignature_def t f r)
    with s show "\<exists>firstCall'.
                       injectThoughtSignature rt body sig =
                         stringify rt
                           (setField json ''messages''
                              (JArr (messages[i :=
                                 JObj (AList.update ''tool_calls''
                                        (JArr (JObj firstCall' # others)) message)])))
                     \<and> safeGet (JObj firstCall')
                           [''extra_content'', ''google'', ''thought_signature'']
                         = Some (JStr sig)
                     \<and> (\<forall>k. k \<noteq> ''extra_content'' \<longrightarrow>
                           map_of firstCall' k = map_of firstCall k)
                     \<and> (\<forall>k. k \<noteq> ''google'' \<longrightarrow>
                           safeGet (JObj firstCall') [''extra_content'', k]
                             = safeGet (JObj firstCall) [''extra_content'', k])
                     \<and> (\<forall>k. k \<noteq> ''thought_signature'' \<longrightarrow>
                           safeGet (JObj firstCall') [''extra_content'', ''google'', k]
                             = safeGet (JObj firstCall) [''extra_content'', ''google'', k])"
      by blast
  }
qed

theorem injectThoughtSignature_first_call_witness:
  "parse injectRuntime historyText = Some (JObj [(''messages'', JArr historyMessages)])
   \<and> lastTargetMessage historyMessages 1
   \<and> signatureWritable [(''id'', JStr ''1'')]
   \<and> injectThoughtSignature injectRuntime historyText ''sig'' = historyOutText
   \<and> parse injectRuntime historyOutText = Some (JObj [(''messages'', JArr historyOutMessages)])
   \<and> parse injectRuntime ''{oops'' = None
   \<and> injectThoughtSignature injectRuntime ''{oops'' ''sig'' = ''{oops''"
proof -
  have a: "parse injectRuntime historyText = Some (JObj [(''messages'', JArr historyMessages)])"
    by code_simp
  have b: "lastTargetMessage historyMessages 1"
    unfolding lastTargetMessage_def
  proof (intro conjI allI impI)
    show "1 < length historyMessages" by code_simp
    show "isTargetMessage (historyMessages ! 1)" by code_simp
    fix j assume "1 < j \<and> j < length historyMessages"
    moreover have "length historyMessages = 3" by code_simp
    ultimately have "j = 2" by simp
    moreover have "\<not> isTargetMessage (historyMessages ! 2)" by code_simp
    ultimately show "\<not> isTargetMessage (historyMessages ! j)" by simp
  qed
  have c: "signatureWritable [(''id'', JStr ''1'')]"
    by (simp add: signatureWritable_def writableContainer_def)
  have d: "injectThoughtSignature injectRuntime historyText ''sig'' = historyOutText"
    by code_simp
  have e: "parse injectRuntime historyOutText
             = Some (JObj [(''messages'', JArr historyOutMessages)])"
    by code_simp
  have f: "parse injectRuntime ''{oops'' = None" by code_simp
  show ?thesis
    using injectThoughtSignature_first_call [of injectRuntime "''{oops''" "''sig''"]
      injectThoughtSignature_first_call [of injectRuntime historyText "''sig''"] a b c d e f
    by simp
qed

text \<open>
  The last assistant message has a non-empty \<^verbatim>\<open>tool_calls\<close> array and the body
  parses, yet no signature is written: when the first tool call is a string the
  guard returns the body, and when \<^verbatim>\<open>extra_content\<close> is an array the body is
  serialized again without a signature.
\<close>

theorem injectThoughtSignature_guard_counterexample:
  "parse injectRuntime stringCallText = Some (JObj [(''messages'', JArr [stringCallMessage])])
   \<and> isTargetMessage stringCallMessage
   \<and> injectThoughtSignature injectRuntime stringCallText ''sig'' = stringCallText
   \<and> parse injectRuntime arrayContainerText
       = Some (JObj [(''messages'', JArr [arrayContainerMessage])])
   \<and> isTargetMessage arrayContainerMessage
   \<and> injectThoughtSignature injectRuntime arrayContainerText ''sig'' = arrayContainerOutText
   \<and> arrayContainerOutText \<noteq> arrayContainerText
   \<and> parse injectRuntime arrayContainerOutText
       = Some (JObj [(''messages'', JArr [arrayContainerMessage])])"
  by code_simp

section \<open>Properties of the schema transformation\<close>

text \<open>What one turn of the loop over the entries assigns.\<close>

lemma transformJsonSchema_primitive:
  "\<not> isObjectValue v \<Longrightarrow> transformJsonSchema options v = Inr v"
  by (cases v) simp_all

lemma objectAssign_simps [simp]:
  "objectAssign result [] = result"
  "objectAssign result [(k, v)] = AList.update k v result"
  by (simp_all add: objectAssign_def)

lemma set_update_subset: "set (AList.update k v al) \<subseteq> insert (k, v) (set al)"
  by (induction al) auto

lemma update_fresh: "k \<notin> fst ` set al \<Longrightarrow> AList.update k v al = al @ [(k, v)]"
  by (induction al) auto

lemma wellFormedEntries_set: "wellFormedEntries al = (\<forall>(k, v)\<in>set al. wellFormed v)"
  by (induction al) auto

lemma wellFormedItems_set: "wellFormedItems xs = (\<forall>x\<in>set xs. wellFormed x)"
  by (induction xs) auto

lemma keysOfEntries_set:
  "set (keysOfEntries al) = (\<Union>(k, v)\<in>set al. insert k (set (keysOf v)))"
  by (induction al) auto

lemma keysOfItems_set: "set (keysOfItems xs) = (\<Union>x\<in>set xs. set (keysOf x))"
  by (induction xs) auto

lemma reachedTransformsItems_set:
  "set (reachedTransformsItems options xs) = (\<Union>x\<in>set xs. set (reachedTransforms options x))"
  by (induction xs) auto

lemma reachedTransformsEntries_set:
  "set (reachedTransformsEntries options al) =
     (\<Union>(k, v)\<in>set al.
        if k \<in> keywordsToRemove options then {}
        else case keywordTransforms options k of
          Some transform \<Rightarrow> {(k, v)}
        | None \<Rightarrow> set (reachedTransforms options v))"
  by (induction al) (auto split: option.splits)

lemma plainObject_update:
  assumes "plainObject options al" "plainKey options k" "wellFormed v" "plainValue options v"
  shows "plainObject options (AList.update k v al)"
  using assms set_update_subset [of k v al]
  by (auto simp: plainObject_def distinct_update)

lemma plainObject_value:
  "plainObject options al = (wellFormed (JObj al) \<and> plainValue options (JObj al))"
  by (auto simp: plainObject_def plainValue_def wellFormedEntries_set keysOfEntries_set
      list_all_iff)


lemma plain_fixed_all:
  "wellFormed s \<longrightarrow> plainValue options s \<longrightarrow> transformJsonSchema options s = Inr s"
  and "wellFormedItems items \<longrightarrow> list_all (plainKey options) (keysOfItems items)
        \<longrightarrow> transformItems options items = Inr items"
  and "wellFormedEntries entries \<longrightarrow> distinct (map fst entries)
        \<longrightarrow> list_all (plainKey options) (keysOfEntries entries)
        \<longrightarrow> (\<forall>acc. fst ` set acc \<inter> fst ` set entries = {}
              \<longrightarrow> transformEntries options entries acc = Inr (acc @ entries))"
proof (induction s and items and entries rule: wellFormed_wellFormedItems_wellFormedEntries.induct)
  case (1 items)
  then show ?case by (simp add: plainValue_def)
next
  case (2 entries)
  then show ?case by (simp add: plainValue_def)
next
  case (8 item items)
  then show ?case by (simp add: plainValue_def)
next
  case (10 key "value" entries)
  show ?case
  proof (intro impI allI)
    fix acc :: obj
    assume wf: "wellFormedEntries ((key, value) # entries)"
      and d: "distinct (map fst ((key, value) # entries))"
      and p: "list_all (plainKey options) (keysOfEntries ((key, value) # entries))"
      and a: "fst ` set acc \<inter> fst ` set ((key, value) # entries) = {}"
    from p have pk: "key \<notin> keywordsToRemove options" "keywordTransforms options key = None"
      by (simp_all add: plainKey_def)
    from wf p 10 have v: "transformJsonSchema options value = Inr value"
      by (simp add: plainValue_def)
    from a have fresh: "key \<notin> fst ` set acc" by auto
    from a d have a': "fst ` set (acc @ [(key, value)]) \<inter> fst ` set entries = {}"
      by auto
    from wf d p 10 have
      "\<forall>acc. fst ` set acc \<inter> fst ` set entries = {}
          \<longrightarrow> transformEntries options entries acc = Inr (acc @ entries)"
      by simp
    with a' have "transformEntries options entries (acc @ [(key, value)])
                  = Inr ((acc @ [(key, value)]) @ entries)"
      by blast
    then show "transformEntries options ((key, value) # entries) acc
                = Inr (acc @ (key, value) # entries)"
      using pk v by (simp add: update_fresh [OF fresh])
  qed
qed simp_all

lemma plain_fixed:
  "wellFormed s \<Longrightarrow> plainValue options s \<Longrightarrow> transformJsonSchema options s = Inr s"
  using plain_fixed_all(1) by blast


lemma transform_main:
  assumes enum: "plainKey options ''enum''"
  shows "list_all (constEntry options) (reachedTransforms options s)
     \<longrightarrow> (\<exists>s'. transformJsonSchema options s = Inr s'
           \<and> (wellFormed s
                \<longrightarrow> list_all (\<lambda>entry. plainValue options (snd entry)) (reachedTransforms options s)
                \<longrightarrow> wellFormed s' \<and> plainValue options s'))"
  and "list_all (constEntry options) (reachedTransformsItems options items)
     \<longrightarrow> (\<exists>items'. transformItems options items = Inr items'
           \<and> (wellFormedItems items
                \<longrightarrow> list_all (\<lambda>entry. plainValue options (snd entry))
                      (reachedTransformsItems options items)
                \<longrightarrow> wellFormedItems items' \<and> list_all (plainKey options) (keysOfItems items')))"
  and "list_all (constEntry options) (reachedTransformsEntries options entries)
     \<longrightarrow> (\<forall>acc. \<exists>out. transformEntries options entries acc = Inr out
           \<and> (wellFormedEntries entries
                \<longrightarrow> list_all (\<lambda>entry. plainValue options (snd entry))
                      (reachedTransformsEntries options entries)
                \<longrightarrow> plainObject options acc \<longrightarrow> plainObject options out))"
proof (induction s and items and entries rule: wellFormed_wellFormedItems_wellFormedEntries.induct)
  case (1 items)
  then show ?case by (auto simp: plainValue_def)
next
  case (2 entries)
  show ?case
  proof
    assume "list_all (constEntry options) (reachedTransforms options (JObj entries))"
    with 2 obtain out where
      o: "transformEntries options entries [] = Inr out"
         "wellFormedEntries entries
            \<longrightarrow> list_all (\<lambda>entry. plainValue options (snd entry))
                  (reachedTransformsEntries options entries)
            \<longrightarrow> plainObject options [] \<longrightarrow> plainObject options out"
      by (metis reachedTransforms.simps(2))
    have e: "plainObject options []" by (simp add: plainObject_def)
    have "wellFormed (JObj out) \<and> plainValue options (JObj out)"
      if "wellFormed (JObj entries)"
        and "list_all (\<lambda>entry. plainValue options (snd entry))
               (reachedTransforms options (JObj entries))"
    proof -
      from that o(2) e have "plainObject options out" by simp
      then show ?thesis by (simp only: plainObject_value)
    qed
    with o(1) show "\<exists>s'. transformJsonSchema options (JObj entries) = Inr s'
           \<and> (wellFormed (JObj entries)
                \<longrightarrow> list_all (\<lambda>entry. plainValue options (snd entry))
                      (reachedTransforms options (JObj entries))
                \<longrightarrow> wellFormed s' \<and> plainValue options s')"
      by simp
  qed
next
  case (8 item items)
  then show ?case by (auto simp: plainValue_def)
next
  case (10 key "value" entries)
  show ?case
  proof (intro impI allI)
    fix acc :: obj
    assume c: "list_all (constEntry options)
                 (reachedTransformsEntries options ((key, value) # entries))"
    then have ctail: "list_all (constEntry options) (reachedTransformsEntries options entries)"
      by simp
    let ?G = "\<lambda>acc out. wellFormedEntries ((key, value) # entries)
                \<longrightarrow> list_all (\<lambda>entry. plainValue options (snd entry))
                      (reachedTransformsEntries options ((key, value) # entries))
                \<longrightarrow> plainObject options acc \<longrightarrow> plainObject options out"
    from 10(2) ctail have tail: "\<And>acc'. \<exists>out. transformEntries options entries acc' = Inr out
           \<and> (wellFormedEntries entries
                \<longrightarrow> list_all (\<lambda>entry. plainValue options (snd entry))
                      (reachedTransformsEntries options entries)
                \<longrightarrow> plainObject options acc' \<longrightarrow> plainObject options out)"
      by blast
    show "\<exists>out. transformEntries options ((key, value) # entries) acc = Inr out \<and> ?G acc out"
    proof (cases "key \<in> keywordsToRemove options")
      case True
      with tail [of acc] show ?thesis by auto
    next
      case False
      show ?thesis
      proof (cases "keywordTransforms options key")
        case (Some f)
        with False c have k: "key = ''const''" and f: "f value = Inr [(''enum'', JArr [value])]"
          by (simp_all add: constEntry_def constToEnum_def)
        from tail [of "AList.update ''enum'' (JArr [value]) acc"] obtain out where
          o: "transformEntries options entries (AList.update ''enum'' (JArr [value]) acc) = Inr out"
             "wellFormedEntries entries
                \<longrightarrow> list_all (\<lambda>entry. plainValue options (snd entry))
                      (reachedTransformsEntries options entries)
                \<longrightarrow> plainObject options (AList.update ''enum'' (JArr [value]) acc)
                \<longrightarrow> plainObject options out"
          by blast
        have "?G acc out"
        proof (intro impI)
          assume w: "wellFormedEntries ((key, value) # entries)"
            and p: "list_all (\<lambda>entry. plainValue options (snd entry))
                      (reachedTransformsEntries options ((key, value) # entries))"
            and a: "plainObject options acc"
          from p False Some have pv: "plainValue options value" by simp
          from w have wv: "wellFormed value" by simp
          have "plainObject options (AList.update ''enum'' (JArr [value]) acc)"
            using a enum wv pv by (intro plainObject_update) (simp_all add: plainValue_def)
          with o(2) w p False Some show "plainObject options out" by simp
        qed
        with o(1) False Some f show ?thesis by simp
      next
        case None
        with False c have cv: "list_all (constEntry options) (reachedTransforms options value)"
          by simp
        with 10(1) obtain v' where
          v: "transformJsonSchema options value = Inr v'"
             "wellFormed value
                \<longrightarrow> list_all (\<lambda>entry. plainValue options (snd entry))
                      (reachedTransforms options value)
                \<longrightarrow> wellFormed v' \<and> plainValue options v'"
          by blast
        have same: "\<not> isObjectValue value \<Longrightarrow> v' = value"
          using v(1) by (simp add: transformJsonSchema_primitive)
        from tail [of "AList.update key v' acc"] obtain out where
          o: "transformEntries options entries (AList.update key v' acc) = Inr out"
             "wellFormedEntries entries
                \<longrightarrow> list_all (\<lambda>entry. plainValue options (snd entry))
                      (reachedTransformsEntries options entries)
                \<longrightarrow> plainObject options (AList.update key v' acc)
                \<longrightarrow> plainObject options out"
          by blast
        have "?G acc out"
        proof (intro impI)
          assume w: "wellFormedEntries ((key, value) # entries)"
            and p: "list_all (\<lambda>entry. plainValue options (snd entry))
                      (reachedTransformsEntries options ((key, value) # entries))"
            and a: "plainObject options acc"
          from p False None have "list_all (\<lambda>entry. plainValue options (snd entry))
                      (reachedTransforms options value)" by simp
          with v(2) w have "wellFormed v'" "plainValue options v'" by simp_all
          moreover have "plainKey options key" using False None by (simp add: plainKey_def)
          ultimately have "plainObject options (AList.update key v' acc)"
            using a by (intro plainObject_update)
          with o(2) w p False None show "plainObject options out" by simp
        qed
        moreover have "transformEntries options ((key, value) # entries) acc = Inr out"
          using o(1) False None v(1) same by (cases "isObjectValue value") simp_all
        ultimately show ?thesis by blast
      qed
    qed
  qed
qed (simp_all add: plainValue_def)

text \<open>
  The default options, whatever their table inherits, meet the hypotheses of the two
  theorems below on every value none of whose keys is an inherited member.
\<close>

lemma reached_keys:
  "fst ` set (reachedTransforms options s) \<subseteq> set (keysOf s)"
  "fst ` set (reachedTransformsItems options items) \<subseteq> set (keysOfItems items)"
  "fst ` set (reachedTransformsEntries options entries) \<subseteq> set (keysOfEntries entries)"
  by (induction s and items and entries rule: wellFormed_wellFormedItems_wellFormedEntries.induct)
     (auto split: option.splits if_splits)

lemma reached_transformed:
  "\<forall>e\<in>set (reachedTransforms options s). keywordTransforms options (fst e) \<noteq> None"
  "\<forall>e\<in>set (reachedTransformsItems options items). keywordTransforms options (fst e) \<noteq> None"
  "\<forall>e\<in>set (reachedTransformsEntries options entries).
      keywordTransforms options (fst e) \<noteq> None"
  by (induction s and items and entries rule: wellFormed_wellFormedItems_wellFormedEntries.induct)
     (auto split: option.splits if_splits)

lemma defaultOptions_onlyConstToEnum:
  assumes "set (keysOf s) \<inter> dom inherited = {}" and "''enum'' \<notin> dom inherited"
  shows "onlyConstToEnum (defaultOptions inherited) s"
    and "plainKey (defaultOptions inherited) ''enum''"
    and "''const'' \<notin> keywordsToRemove (defaultOptions inherited)"
    and "keywordTransforms (defaultOptions inherited) ''const'' \<noteq> None"
proof -
  have "constEntry (defaultOptions inherited) (k, v)"
    if "(k, v) \<in> set (reachedTransforms (defaultOptions inherited) s)" for k v
  proof -
    from that reached_keys(1) [of "defaultOptions inherited" s] have "k \<in> set (keysOf s)"
      by force
    with assms(1) have "inherited k = None" by auto
    moreover have "keywordTransforms (defaultOptions inherited) k \<noteq> None"
      using that reached_transformed(1) [of "defaultOptions inherited" s] by force
    ultimately show ?thesis
      by (auto simp: constEntry_def defaultOptions_def split: if_splits)
  qed
  then show "onlyConstToEnum (defaultOptions inherited) s"
    by (auto simp: onlyConstToEnum_def list_all_iff)
  show "plainKey (defaultOptions inherited) ''enum''"
    using assms(2)
    by (auto simp: plainKey_def defaultOptions_def defaultKeywordsToRemove_def)
  show "''const'' \<notin> keywordsToRemove (defaultOptions inherited)"
    by (simp add: defaultOptions_def defaultKeywordsToRemove_def)
  show "keywordTransforms (defaultOptions inherited) ''const'' \<noteq> None"
    by (simp add: defaultOptions_def)
qed

text \<open>
  Claim C3, as far as it holds. Take options that neither remove nor transform
  \<^verbatim>\<open>enum\<close>, and a value with each object key once on which the traversal asks the
  table only at \<^verbatim>\<open>const\<close> entries, where the function gives \<^verbatim>\<open>{enum: [v]}\<close>. If the
  value of each such \<^verbatim>\<open>const\<close> holds only keys that are copied, the transformation
  returns, and transforming its result again gives the same result.
\<close>

theorem transformJsonSchema_idempotent:
  assumes "wellFormed s" and "plainKey options ''enum''"
    and "onlyConstToEnum options s" and "constValuesPlain options s"
  shows "\<exists>s'. transformJsonSchema options s = Inr s'
            \<and> transformJsonSchema options s' = Inr s'"
proof -
  from transform_main(1) [OF assms(2), of s] assms(1,3,4) obtain s' where
    s': "transformJsonSchema options s = Inr s'" "wellFormed s'" "plainValue options s'"
    by (auto simp: onlyConstToEnum_def constValuesPlain_def)
  from plain_fixed [OF s'(2,3)] s'(1) show ?thesis by blast
qed

lemma entriesOk_Cons:
  "entriesOk options ((k, v) # entries) \<Longrightarrow> entriesOk options entries"
  by (simp add: entriesOk_def)

lemma onlyConst_entriesOk:
  "list_all (constEntry options) (reachedTransformsEntries options entries)
     \<Longrightarrow> entriesOk options entries"
  by (auto simp: entriesOk_def list_all_iff reachedTransformsEntries_set constEntry_def
      constToEnum_def split: option.splits)

lemma transformEntries_untouched:
  assumes "transformEntries options entries acc = Inr out"
    and "entriesOk options entries"
    and "\<forall>(k, v)\<in>set entries. k \<notin> keywordsToRemove options \<longrightarrow>
           (if keywordTransforms options k = None then k \<noteq> k' else k' \<noteq> ''enum'')"
  shows "map_of out k' = map_of acc k'"
  using assms
proof (induction entries arbitrary: acc)
  case Nil
  then show ?case by simp
next
  case (Cons e entries)
  obtain k v where e: "e = (k, v)" by (cases e)
  note ok = entriesOk_Cons [OF Cons.prems(2) [unfolded e]]
  from Cons.prems(3) have rest: "\<forall>(k, v)\<in>set entries. k \<notin> keywordsToRemove options \<longrightarrow>
           (if keywordTransforms options k = None then k \<noteq> k' else k' \<noteq> ''enum'')"
    by simp
  show ?case
  proof (cases "k \<in> keywordsToRemove options")
    case True
    with Cons.prems(1) e have "transformEntries options entries acc = Inr out" by simp
    from Cons.IH [OF this ok rest] show ?thesis .
  next
    case False
    show ?thesis
    proof (cases "keywordTransforms options k")
      case (Some f)
      with False Cons.prems(2) e have f: "f v = Inr [(''enum'', JArr [v])]"
        by (simp add: entriesOk_def)
      from Some False Cons.prems(3) e have ne: "k' \<noteq> ''enum''" by simp
      from Cons.prems(1) e False Some f
      have "transformEntries options entries (AList.update ''enum'' (JArr [v]) acc) = Inr out"
        by simp
      from Cons.IH [OF this ok rest] ne show ?thesis by (simp add: update_conv')
    next
      case None
      from None False Cons.prems(3) e have ne: "k \<noteq> k'" by simp
      from Cons.prems(1) e False None obtain v' where
        "transformEntries options entries (AList.update k v' acc) = Inr out"
        by (cases "isObjectValue v") (auto split: sum.splits)
      from Cons.IH [OF this ok rest] ne show ?thesis by (simp add: update_conv')
    qed
  qed
qed

lemma transformEntries_kept:
  assumes "transformEntries options entries acc = Inr out"
    and "entriesOk options entries" and "distinct (map fst entries)"
    and "map_of entries k = Some v0" and "plainKey options k" and "k \<noteq> ''enum''"
  shows "\<exists>v0'. transformJsonSchema options v0 = Inr v0' \<and> map_of out k = Some v0'"
  using assms(1-4)
proof (induction entries arbitrary: acc)
  case Nil
  then show ?case by simp
next
  case (Cons e entries)
  obtain k1 v1 where e: "e = (k1, v1)" by (cases e)
  note ok = entriesOk_Cons [OF Cons.prems(2) [unfolded e]]
  from Cons.prems(3) e have d: "distinct (map fst entries)" and k1: "k1 \<notin> fst ` set entries"
    by simp_all
  show ?case
  proof (cases "k1 = k")
    case True
    with Cons.prems(4) e have v: "v1 = v0" by simp
    from assms(5) have pk: "k \<notin> keywordsToRemove options" "keywordTransforms options k = None"
      by (simp_all add: plainKey_def)
    from Cons.prems(1) e True v pk obtain v0' where
      t: "transformJsonSchema options v0 = Inr v0'"
      and r: "transformEntries options entries (AList.update k v0' acc) = Inr out"
      by (cases "isObjectValue v0")
         (auto split: sum.splits simp: transformJsonSchema_primitive)
    have "\<forall>(k2, v)\<in>set entries. k2 \<notin> keywordsToRemove options \<longrightarrow>
           (if keywordTransforms options k2 = None then k2 \<noteq> k else k \<noteq> ''enum'')"
      using k1 True assms(6) by force
    from transformEntries_untouched [OF r ok this] t show ?thesis
      by (simp add: update_conv')
  next
    case False
    with Cons.prems(4) e have m: "map_of entries k = Some v0" by simp
    from Cons.prems(1) e obtain acc' where "transformEntries options entries acc' = Inr out"
      by (cases "k1 \<in> keywordsToRemove options"; cases "keywordTransforms options k1";
          cases "isObjectValue v1") (auto split: sum.splits)
    from Cons.IH [OF this ok d m] show ?thesis .
  qed
qed

lemma transformEntries_const:
  assumes "transformEntries options entries acc = Inr out"
    and "entriesOk options entries" and "distinct (map fst entries)"
    and "map_of entries ''const'' = Some v"
    and "''const'' \<notin> keywordsToRemove options" and "keywordTransforms options ''const'' \<noteq> None"
    and "\<not> enumAfterConst entries"
  shows "map_of out ''enum'' = Some (JArr [v])"
  using assms(1-4,7)
proof (induction entries arbitrary: acc)
  case Nil
  then show ?case by simp
next
  case (Cons e entries)
  obtain k1 v1 where e: "e = (k1, v1)" by (cases e)
  note ok = entriesOk_Cons [OF Cons.prems(2) [unfolded e]]
  from Cons.prems(3) e have d: "distinct (map fst entries)" and k1: "k1 \<notin> fst ` set entries"
    by simp_all
  show ?case
  proof (cases "k1 = ''const''")
    case True
    with Cons.prems(4) e have v: "v1 = v" by simp
    from assms(6) obtain f where f: "keywordTransforms options ''const'' = Some f" by auto
    with Cons.prems(2) e True v assms(5) have fv: "f v = Inr [(''enum'', JArr [v])]"
      by (simp add: entriesOk_def)
    from Cons.prems(1) e True v assms(5) f fv
    have r: "transformEntries options entries (AList.update ''enum'' (JArr [v]) acc) = Inr out"
      by simp
    from Cons.prems(5) e True have noenum: "''enum'' \<notin> fst ` set entries"
      by (simp add: enumAfterConst_def)
    have "\<forall>(k2, v)\<in>set entries. k2 \<notin> keywordsToRemove options \<longrightarrow>
           (if keywordTransforms options k2 = None then k2 \<noteq> ''enum'' else ''enum'' \<noteq> ''enum'')"
    proof (clarify)
      fix k2 v2 assume m: "(k2, v2) \<in> set entries" and nr: "k2 \<notin> keywordsToRemove options"
      show "if keywordTransforms options k2 = None then k2 \<noteq> ''enum'' else ''enum'' \<noteq> ''enum''"
      proof (cases "keywordTransforms options k2")
        case None
        with m noenum show ?thesis by force
      next
        case (Some g)
        with ok m nr have "k2 = ''const''" by (auto simp: entriesOk_def)
        with m k1 True show ?thesis by force
      qed
    qed
    from transformEntries_untouched [OF r ok this] show ?thesis by (simp add: update_conv')
  next
    case False
    with Cons.prems(4) e have m: "map_of entries ''const'' = Some v" by simp
    from Cons.prems(5) e False have na: "\<not> enumAfterConst entries"
      by (simp add: enumAfterConst_def)
    from Cons.prems(1) e obtain acc' where "transformEntries options entries acc' = Inr out"
      by (cases "k1 \<in> keywordsToRemove options"; cases "keywordTransforms options k1";
          cases "isObjectValue v1") (auto split: sum.splits)
    from Cons.IH [OF this ok d m na] show ?thesis .
  qed
qed

lemma transformEntries_no_const:
  assumes "transformEntries options entries [] = Inr out"
    and "entriesOk options entries"
    and "keywordTransforms options ''const'' \<noteq> None"
  shows "map_of out ''const'' = None"
proof -
  have "\<forall>(k, v)\<in>set entries. k \<notin> keywordsToRemove options \<longrightarrow>
           (if keywordTransforms options k = None then k \<noteq> ''const'' else ''const'' \<noteq> ''enum'')"
    using assms(3) by auto
  from transformEntries_untouched [OF assms(1,2) this] show ?thesis by simp
qed

lemma transformItems_nth:
  "transformItems options items = Inr items'
     \<Longrightarrow> length items' = length items
         \<and> (\<forall>i<length items. transformJsonSchema options (items ! i) = Inr (items' ! i))"
proof (induction items arbitrary: items')
  case Nil
  then show ?case by simp
next
  case (Cons x xs)
  from Cons.prems obtain x' xs' where
    x: "transformJsonSchema options x = Inr x'" and xs: "transformItems options xs = Inr xs'"
    and i: "items' = x' # xs'"
    by (auto split: sum.splits)
  from Cons.IH [OF xs] x i show ?case by (auto simp: nth_Cons split: nat.splits)
qed

lemma onlyConst_field:
  assumes "onlyConstToEnum options (JObj entries)" and "(k, v) \<in> set entries"
    and "plainKey options k"
  shows "onlyConstToEnum options v"
  using assms
  by (force simp: onlyConstToEnum_def list_all_iff reachedTransformsEntries_set plainKey_def)

lemma onlyConst_item:
  assumes "onlyConstToEnum options (JArr items)" and "x \<in> set items"
  shows "onlyConstToEnum options x"
  using assms
  by (auto simp: onlyConstToEnum_def list_all_iff reachedTransformsItems_set)

lemma transform_at_path:
  assumes "keptPath options path"
  shows "wellFormed s \<Longrightarrow> onlyConstToEnum options s \<Longrightarrow> transformJsonSchema options s = Inr s'
     \<Longrightarrow> valueAt s path = Some t
     \<Longrightarrow> \<exists>t'. transformJsonSchema options t = Inr t' \<and> valueAt s' path = Some t'
            \<and> wellFormed t \<and> onlyConstToEnum options t"
  using assms
proof (induction path arbitrary: s s')
  case Nil
  then show ?case by simp
next
  case (Cons step path)
  from Cons.prems(5) have kp: "keptPath options path" and ks: "keptStep options step"
    by (simp_all add: keptPath_def)
  show ?case
  proof (cases step)
    case (Field k)
    with Cons.prems(4) obtain entries v0 where
      s: "s = JObj entries" and m: "map_of entries k = Some v0" and v: "valueAt v0 path = Some t"
      by (cases s) (auto split: option.splits)
    from Cons.prems(3) s obtain out where
      o: "transformEntries options entries [] = Inr out" and s': "s' = JObj out"
      by (auto split: sum.splits)
    from Cons.prems(2) s have ok: "entriesOk options entries"
      by (simp add: onlyConstToEnum_def onlyConst_entriesOk)
    from Cons.prems(1) s have d: "distinct (map fst entries)" and w: "wellFormedEntries entries"
      by simp_all
    from ks Field have pk: "plainKey options k" "k \<noteq> ''enum''" by simp_all
    from transformEntries_kept [OF o ok d m pk] obtain v0' where
      t: "transformJsonSchema options v0 = Inr v0'" and mo: "map_of out k = Some v0'"
      by blast
    from m have mem: "(k, v0) \<in> set entries" by (rule map_of_SomeD)
    with w have wv: "wellFormed v0" by (auto simp: wellFormedEntries_set)
    from onlyConst_field [OF Cons.prems(2) [unfolded s] mem pk(1)]
    have ov: "onlyConstToEnum options v0" .
    from Cons.IH [OF wv ov t v kp] obtain t' where
      "transformJsonSchema options t = Inr t'" "valueAt v0' path = Some t'"
      "wellFormed t" "onlyConstToEnum options t"
      by blast
    then show ?thesis using s' mo Field by auto
  next
    case (Item i)
    with Cons.prems(4) obtain items where
      s: "s = JArr items" and i: "i < length items" and v: "valueAt (items ! i) path = Some t"
      by (cases s) (auto split: if_splits)
    from Cons.prems(3) s obtain items' where
      o: "transformItems options items = Inr items'" and s': "s' = JArr items'"
      by (auto split: sum.splits)
    from transformItems_nth [OF o] i have
      l: "length items' = length items"
      and t: "transformJsonSchema options (items ! i) = Inr (items' ! i)"
      by simp_all
    from i have mem: "items ! i \<in> set items" by simp
    from Cons.prems(1) s mem have wv: "wellFormed (items ! i)"
      by (auto simp: wellFormedItems_set)
    from onlyConst_item [OF Cons.prems(2) [unfolded s] mem]
    have ov: "onlyConstToEnum options (items ! i)" .
    from Cons.IH [OF wv ov t v kp] obtain t' where
      "transformJsonSchema options t = Inr t'" "valueAt (items' ! i) path = Some t'"
      "wellFormed t" "onlyConstToEnum options t"
      by blast
    then show ?thesis using s' l i Item by auto
  qed
qed

text \<open>
  Claim C4, as far as it holds. Under the same hypotheses on the options and the
  value, with \<^verbatim>\<open>const\<close> transformed and not removed: at every position reached
  through copied keys other than \<^verbatim>\<open>enum\<close> and through array items, an object with
  \<^verbatim>\<open>const: v\<close> and no \<^verbatim>\<open>enum\<close> entry behind it becomes an object with
  \<^verbatim>\<open>enum: [v]\<close> and no \<^verbatim>\<open>const\<close>; and when the values of the \<^verbatim>\<open>const\<close> entries
  hold only copied keys, no key of the result is \<^verbatim>\<open>const\<close>.
\<close>

theorem const_becomes_enum:
  assumes "wellFormed s" and "plainKey options ''enum''" and "onlyConstToEnum options s"
    and "''const'' \<notin> keywordsToRemove options"
    and "keywordTransforms options ''const'' \<noteq> None"
  shows "\<exists>s'. transformJsonSchema options s = Inr s'
          \<and> (constValuesPlain options s \<longrightarrow> ''const'' \<notin> set (keysOf s'))
          \<and> (\<forall>path entries v.
                keptPath options path \<longrightarrow> valueAt s path = Some (JObj entries)
                \<longrightarrow> map_of entries ''const'' = Some v \<longrightarrow> \<not> enumAfterConst entries
                \<longrightarrow> (\<exists>entries'. valueAt s' path = Some (JObj entries')
                       \<and> map_of entries' ''enum'' = Some (JArr [v])
                       \<and> map_of entries' ''const'' = None))"
proof -
  from transform_main(1) [OF assms(2), of s] assms(1,3) obtain s' where
    s': "transformJsonSchema options s = Inr s'"
    and p: "constValuesPlain options s \<longrightarrow> wellFormed s' \<and> plainValue options s'"
    by (auto simp: onlyConstToEnum_def constValuesPlain_def)
  have np: "\<not> plainKey options ''const''" using assms(5) by (simp add: plainKey_def)
  have b: "constValuesPlain options s \<longrightarrow> ''const'' \<notin> set (keysOf s')"
    using p np by (auto simp: plainValue_def list_all_iff)
  have a: "\<exists>entries'. valueAt s' path = Some (JObj entries')
                       \<and> map_of entries' ''enum'' = Some (JArr [v])
                       \<and> map_of entries' ''const'' = None"
    if kp: "keptPath options path" and va: "valueAt s path = Some (JObj entries)"
      and m: "map_of entries ''const'' = Some v" and na: "\<not> enumAfterConst entries"
    for path entries v
  proof -
    from transform_at_path [OF kp assms(1,3) s' va] obtain t' where
      t: "transformJsonSchema options (JObj entries) = Inr t'" "valueAt s' path = Some t'"
      and w: "wellFormed (JObj entries)" and oc: "onlyConstToEnum options (JObj entries)"
      by blast
    from t(1) obtain out where
      o: "transformEntries options entries [] = Inr out" and t': "t' = JObj out"
      by (auto split: sum.splits)
    from oc have ok: "entriesOk options entries"
      by (simp add: onlyConstToEnum_def onlyConst_entriesOk)
    from w have d: "distinct (map fst entries)" by simp
    from transformEntries_const [OF o ok d m assms(4,5) na]
      transformEntries_no_const [OF o ok assms(5)] t(2) t'
    show ?thesis by simp
  qed
  from s' b a show ?thesis by blast
qed

theorem transformJsonSchema_idempotent_witness:
  "wellFormed personSchema
   \<and> plainKey (defaultOptions Map.empty) ''enum''
   \<and> onlyConstToEnum (defaultOptions Map.empty) personSchema
   \<and> constValuesPlain (defaultOptions Map.empty) personSchema
   \<and> transformJsonSchema (defaultOptions Map.empty) personSchema = Inr personSchemaOut
   \<and> transformJsonSchema (defaultOptions Map.empty) personSchemaOut = Inr personSchemaOut"
proof -
  have a: "wellFormed personSchema" by code_simp
  have b: "plainKey (defaultOptions Map.empty) ''enum''" by code_simp
  have c: "onlyConstToEnum (defaultOptions Map.empty) personSchema" by code_simp
  have d: "constValuesPlain (defaultOptions Map.empty) personSchema" by code_simp
  have e: "transformJsonSchema (defaultOptions Map.empty) personSchema = Inr personSchemaOut"
    by code_simp
  show ?thesis
    using transformJsonSchema_idempotent [OF a b c d] a b c d e by simp
qed

text \<open>
  Under the default options the value of a \<^verbatim>\<open>const\<close> is copied as it is, and the
  second pass removes the \<^verbatim>\<open>$ref\<close> inside it: the transformation is not idempotent.
\<close>

theorem transformJsonSchema_idempotent_counterexample:
  "transformJsonSchema (defaultOptions Map.empty)
     (JObj [(''const'', JObj [(''$ref'', JStr ''x'')])])
     = Inr (JObj [(''enum'', JArr [JObj [(''$ref'', JStr ''x'')]])])
   \<and> transformJsonSchema (defaultOptions Map.empty)
     (JObj [(''enum'', JArr [JObj [(''$ref'', JStr ''x'')]])])
     = Inr (JObj [(''enum'', JArr [JObj []])])"
  by code_simp

theorem const_becomes_enum_witness:
  "wellFormed personSchema
   \<and> plainKey (defaultOptions Map.empty) ''enum''
   \<and> onlyConstToEnum (defaultOptions Map.empty) personSchema
   \<and> constValuesPlain (defaultOptions Map.empty) personSchema
   \<and> ''const'' \<notin> keywordsToRemove (defaultOptions Map.empty)
   \<and> keywordTransforms (defaultOptions Map.empty) ''const'' \<noteq> None
   \<and> keptPath (defaultOptions Map.empty) [Field ''properties'', Field ''name'']
   \<and> valueAt personSchema [Field ''properties'', Field ''name'']
       = Some (JObj [(''type'', JStr ''string''), (''const'', JStr ''John'')])
   \<and> \<not> enumAfterConst [(''type'', JStr ''string''), (''const'', JStr ''John'')]
   \<and> transformJsonSchema (defaultOptions Map.empty) personSchema = Inr personSchemaOut
   \<and> valueAt personSchemaOut [Field ''properties'', Field ''name'']
       = Some (JObj [(''type'', JStr ''string''), (''enum'', JArr [JStr ''John''])])
   \<and> ''const'' \<notin> set (keysOf personSchemaOut)"
proof -
  have a: "wellFormed personSchema" by code_simp
  have b: "plainKey (defaultOptions Map.empty) ''enum''" by code_simp
  have c: "onlyConstToEnum (defaultOptions Map.empty) personSchema" by code_simp
  have d: "constValuesPlain (defaultOptions Map.empty) personSchema" by code_simp
  have e: "''const'' \<notin> keywordsToRemove (defaultOptions Map.empty)" by code_simp
  have f: "keywordTransforms (defaultOptions Map.empty) ''const'' \<noteq> None"
    by (simp add: defaultOptions_def)
  have g: "keptPath (defaultOptions Map.empty) [Field ''properties'', Field ''name'']"
    by code_simp
  have h: "valueAt personSchema [Field ''properties'', Field ''name'']
       = Some (JObj [(''type'', JStr ''string''), (''const'', JStr ''John'')])"
    by code_simp
  have i: "\<not> enumAfterConst [(''type'', JStr ''string''), (''const'', JStr ''John'')]"
    by code_simp
  have j: "transformJsonSchema (defaultOptions Map.empty) personSchema = Inr personSchemaOut"
    by code_simp
  have k: "valueAt personSchemaOut [Field ''properties'', Field ''name'']
       = Some (JObj [(''type'', JStr ''string''), (''enum'', JArr [JStr ''John''])])"
    by code_simp
  have l: "''const'' \<notin> set (keysOf personSchemaOut)" by code_simp
  show ?thesis
    using const_becomes_enum [OF a b c e f] a b c d e f g h i j k l by simp
qed

text \<open>
  A \<^verbatim>\<open>const\<close> inside the value of a \<^verbatim>\<open>const\<close> stays in the output, and an
  \<^verbatim>\<open>enum\<close> entry behind a \<^verbatim>\<open>const\<close> overwrites the \<^verbatim>\<open>enum\<close> made from it.
\<close>

theorem const_becomes_enum_counterexample:
  "transformJsonSchema (defaultOptions Map.empty)
     (JObj [(''const'', JObj [(''const'', JNum 1)])])
     = Inr (JObj [(''enum'', JArr [JObj [(''const'', JNum 1)]])])
   \<and> ''const'' \<in> set (keysOf (JObj [(''enum'', JArr [JObj [(''const'', JNum 1)]])]))
   \<and> transformJsonSchema (defaultOptions Map.empty)
     (JObj [(''const'', JNum 1), (''enum'', JArr [JNum 2])])
     = Inr (JObj [(''enum'', JArr [JNum 2])])"
  by code_simp

end
